theory Spec2Isabelle
  imports Main "HOL-Library.AList"
begin

section \<open>JavaScript values used by the block cache and the block locator\<close>

text \<open>
  The module under verification is \<^verbatim>\<open>src/unnamed/part_000\<close> (the block cache and the
  block locator of ccstatusline).  A JavaScript string is a sequence of UTF-16 code
  units; a file read with encoding \<^verbatim>\<open>utf-8\<close> is the decoded string, or a failure.
\<close>

type_synonym jsstring = "nat list"

definition str :: "string \<Rightarrow> jsstring" where
  "str s = map of_char s"

text \<open>
  Every call of the source either returns a value or throws; \<^verbatim>\<open>try { } catch { }\<close>
  turns a throw into the value of the handler.
\<close>

datatype 'a res = Throws | Returns 'a

definition bind :: "'a res \<Rightarrow> ('a \<Rightarrow> 'b res) \<Rightarrow> 'b res" where
  "bind m f = (case m of Throws \<Rightarrow> Throws | Returns x \<Rightarrow> f x)"

definition try_catch :: "'a res \<Rightarrow> 'a \<Rightarrow> 'a" where
  "try_catch m handler = (case m of Throws \<Rightarrow> handler | Returns x \<Rightarrow> x)"

subsection \<open>JSON.parse\<close>

text \<open>
  The values \<^verbatim>\<open>JSON.parse\<close> can produce.  A number keeps its literal: the program only
  asks for its type and its truthiness.  An object keeps its properties in creation
  order; a repeated key overwrites the earlier value in place.
\<close>

datatype json =
    JNull
  | JBool bool
  | JNum jsstring
  | JStr jsstring
  | JArr "json list"
  | JObj "(jsstring \<times> json) list"

text \<open>
  \<^verbatim>\<open>JSON.parse\<close> (ECMA-262 25.5.1, the grammar of ECMA-404) as a pushdown automaton
  that reads one code unit at a time.  The stack holds the arrays and objects under
  construction; \<open>KeyF\<close> is a property name waiting for its value and \<open>DoneF\<close> the
  finished top-level value.
\<close>

datatype frame =
    ArrF "json list"
  | ObjF "(jsstring \<times> json) list"
  | KeyF jsstring
  | DoneF json

datatype strctx = AsKey | AsValue

datatype numst = NMinus | NZero | NInt | NDot | NFrac | NExp | NExpSign | NExpDig

datatype mode =
    MValue
  | MArrStart
  | MObjStart
  | MObjKey
  | MColon
  | MAfter
  | MStr strctx jsstring
  | MEsc strctx jsstring
  | MUni strctx jsstring "nat list"
  | MNum numst jsstring
  | MLit jsstring json
  | MFail

type_synonym pstate = "mode \<times> frame list"

definition json_ws :: "nat \<Rightarrow> bool" where
  "json_ws c = (c = 9 \<or> c = 10 \<or> c = 13 \<or> c = 32)"

definition is_digit :: "nat \<Rightarrow> bool" where
  "is_digit c = (48 \<le> c \<and> c \<le> 57)"

definition hexval :: "nat \<Rightarrow> nat option" where
  "hexval c =
     (if 48 \<le> c \<and> c \<le> 57 then Some (c - 48)
      else if 65 \<le> c \<and> c \<le> 70 then Some (c - 55)
      else if 97 \<le> c \<and> c \<le> 102 then Some (c - 87)
      else None)"

fun complete :: "json \<Rightarrow> frame list \<Rightarrow> pstate" where
  "complete v [] = (MAfter, [DoneF v])"
| "complete v (ArrF vs # st) = (MAfter, ArrF (vs @ [v]) # st)"
| "complete v (KeyF k # ObjF kvs # st) = (MAfter, ObjF (AList.update k v kvs) # st)"
| "complete v st = (MFail, [])"

definition value_start :: "nat \<Rightarrow> frame list \<Rightarrow> pstate" where
  "value_start c st =
     (if c = 34 then (MStr AsValue [], st)
      else if c = 123 then (MObjStart, ObjF [] # st)
      else if c = 91 then (MArrStart, ArrF [] # st)
      else if c = 116 then (MLit [114, 117, 101] (JBool True), st)
      else if c = 102 then (MLit [97, 108, 115, 101] (JBool False), st)
      else if c = 110 then (MLit [117, 108, 108] JNull, st)
      else if c = 45 then (MNum NMinus [c], st)
      else if c = 48 then (MNum NZero [c], st)
      else if is_digit c then (MNum NInt [c], st)
      else (MFail, []))"

definition close_array :: "frame list \<Rightarrow> pstate" where
  "close_array st = (case st of ArrF vs # st' \<Rightarrow> complete (JArr vs) st' | _ \<Rightarrow> (MFail, []))"

definition close_object :: "frame list \<Rightarrow> pstate" where
  "close_object st = (case st of ObjF kvs # st' \<Rightarrow> complete (JObj kvs) st' | _ \<Rightarrow> (MFail, []))"

definition after_value :: "nat \<Rightarrow> frame list \<Rightarrow> pstate" where
  "after_value c st =
     (if json_ws c then (MAfter, st)
      else if c = 44 then
        (case st of ArrF vs # st' \<Rightarrow> (MValue, st) | ObjF kvs # st' \<Rightarrow> (MObjKey, st)
         | _ \<Rightarrow> (MFail, []))
      else if c = 93 then close_array st
      else if c = 125 then close_object st
      else (MFail, []))"

definition string_done :: "strctx \<Rightarrow> jsstring \<Rightarrow> frame list \<Rightarrow> pstate" where
  "string_done ctx acc st =
     (case ctx of AsValue \<Rightarrow> complete (JStr acc) st | AsKey \<Rightarrow> (MColon, KeyF acc # st))"

definition escape_char :: "nat \<Rightarrow> nat option" where
  "escape_char c =
     (if c = 34 then Some 34 else if c = 92 then Some 92 else if c = 47 then Some 47
      else if c = 98 then Some 8 else if c = 102 then Some 12 else if c = 110 then Some 10
      else if c = 114 then Some 13 else if c = 116 then Some 9 else None)"

fun num_step :: "numst \<Rightarrow> nat \<Rightarrow> numst option" where
  "num_step NMinus c = (if c = 48 then Some NZero else if is_digit c then Some NInt else None)"
| "num_step NZero c =
     (if c = 46 then Some NDot else if c = 101 \<or> c = 69 then Some NExp else None)"
| "num_step NInt c =
     (if is_digit c then Some NInt else if c = 46 then Some NDot
      else if c = 101 \<or> c = 69 then Some NExp else None)"
| "num_step NDot c = (if is_digit c then Some NFrac else None)"
| "num_step NFrac c =
     (if is_digit c then Some NFrac else if c = 101 \<or> c = 69 then Some NExp else None)"
| "num_step NExp c =
     (if c = 43 \<or> c = 45 then Some NExpSign else if is_digit c then Some NExpDig else None)"
| "num_step NExpSign c = (if is_digit c then Some NExpDig else None)"
| "num_step NExpDig c = (if is_digit c then Some NExpDig else None)"

fun num_accepting :: "numst \<Rightarrow> bool" where
  "num_accepting NZero = True"
| "num_accepting NInt = True"
| "num_accepting NFrac = True"
| "num_accepting NExpDig = True"
| "num_accepting ns = False"

fun step :: "pstate \<Rightarrow> nat \<Rightarrow> pstate" where
  "step (MValue, st) c = (if json_ws c then (MValue, st) else value_start c st)"
| "step (MArrStart, st) c =
     (if json_ws c then (MArrStart, st) else if c = 93 then close_array st
      else value_start c st)"
| "step (MObjStart, st) c =
     (if json_ws c then (MObjStart, st) else if c = 125 then close_object st
      else if c = 34 then (MStr AsKey [], st) else (MFail, []))"
| "step (MObjKey, st) c =
     (if json_ws c then (MObjKey, st) else if c = 34 then (MStr AsKey [], st)
      else (MFail, []))"
| "step (MColon, st) c =
     (if json_ws c then (MColon, st) else if c = 58 then (MValue, st) else (MFail, []))"
| "step (MAfter, st) c = after_value c st"
| "step (MStr ctx acc, st) c =
     (if c = 34 then string_done ctx acc st
      else if c = 92 then (MEsc ctx acc, st)
      else if c < 32 then (MFail, [])
      else (MStr ctx (acc @ [c]), st))"
| "step (MEsc ctx acc, st) c =
     (if c = 117 then (MUni ctx acc [], st)
      else (case escape_char c of Some e \<Rightarrow> (MStr ctx (acc @ [e]), st)
            | None \<Rightarrow> (MFail, [])))"
| "step (MUni ctx acc ds, st) c =
     (case hexval c of
        None \<Rightarrow> (MFail, [])
      | Some h \<Rightarrow>
          (if length ds = 3
           then (MStr ctx (acc @ [foldl (\<lambda>n d. 16 * n + d) 0 (ds @ [h])]), st)
           else (MUni ctx acc (ds @ [h]), st)))"
| "step (MNum ns lx, st) c =
     (case num_step ns c of
        Some ns' \<Rightarrow> (MNum ns' (lx @ [c]), st)
      | None \<Rightarrow>
          (if num_accepting ns
           then (case complete (JNum lx) st of
                   (MAfter, st') \<Rightarrow> after_value c st'
                 | other \<Rightarrow> (MFail, []))
           else (MFail, [])))"
| "step (MLit rest v, st) c =
     (case rest of
        [] \<Rightarrow> (MFail, [])
      | r # rs \<Rightarrow>
          (if c = r then (if rs = [] then complete v st else (MLit rs v, st))
           else (MFail, [])))"
| "step (MFail, st) c = (MFail, [])"

fun finish :: "pstate \<Rightarrow> json option" where
  "finish (MAfter, [DoneF v]) = Some v"
| "finish (MNum ns lx, []) = (if num_accepting ns then Some (JNum lx) else None)"
| "finish s = None"

definition JSON_parse :: "jsstring \<Rightarrow> json res" where
  "JSON_parse s = (case finish (foldl step (MValue, []) s) of None \<Rightarrow> Throws | Some v \<Rightarrow> Returns v)"

text \<open>
  Property access \<^verbatim>\<open>v.k\<close> on a parsed value: it throws a TypeError on \<^verbatim>\<open>null\<close>, finds
  an own property of an object, and is \<^verbatim>\<open>undefined\<close> (\<open>None\<close>) otherwise.  The names the
  program reads (\<^verbatim>\<open>startTime\<close>, \<^verbatim>\<open>message\<close>, \<^verbatim>\<open>usage\<close>, \<^verbatim>\<open>input_tokens\<close>,
  \<^verbatim>\<open>output_tokens\<close>, \<^verbatim>\<open>isSidechain\<close>, \<^verbatim>\<open>timestamp\<close>) are not properties of the
  built-in prototypes of arrays, strings, numbers and booleans.
\<close>

fun get_prop :: "json \<Rightarrow> jsstring \<Rightarrow> json option res" where
  "get_prop JNull k = Throws"
| "get_prop (JObj kvs) k = Returns (map_of kvs k)"
| "get_prop v k = Returns None"

text \<open>Optional chaining \<^verbatim>\<open>v?.k\<close>: \<^verbatim>\<open>undefined\<close> when \<open>v\<close> is \<^verbatim>\<open>undefined\<close> or \<^verbatim>\<open>null\<close>.\<close>

fun get_prop_opt :: "json option \<Rightarrow> jsstring \<Rightarrow> json option res" where
  "get_prop_opt None k = Returns None"
| "get_prop_opt (Some JNull) k = Returns None"
| "get_prop_opt (Some v) k = get_prop v k"

text \<open>Property access on a value of the program that may be \<^verbatim>\<open>undefined\<close>.\<close>

fun get_member :: "json option \<Rightarrow> jsstring \<Rightarrow> json option res" where
  "get_member None k = Throws"
| "get_member (Some v) k = get_prop v k"

text \<open>
  A JSON number literal denotes zero when its significand has no digit but \<open>0\<close>.  (A
  literal too small for a double also reads as zero; the program tests the truth of
  \<^verbatim>\<open>usage\<close> only, and skips a line whose \<^verbatim>\<open>usage\<close> is any number, since a number has no
  numeric \<^verbatim>\<open>input_tokens\<close>.)
\<close>

definition num_is_zero :: "jsstring \<Rightarrow> bool" where
  "num_is_zero lx = (\<forall>c \<in> set (takeWhile (\<lambda>c. c \<noteq> 101 \<and> c \<noteq> 69) lx). c < 49 \<or> 57 < c)"

fun truthy :: "json option \<Rightarrow> bool" where
  "truthy None = False"
| "truthy (Some JNull) = False"
| "truthy (Some (JBool b)) = b"
| "truthy (Some (JNum lx)) = (\<not> num_is_zero lx)"
| "truthy (Some (JStr s)) = (s \<noteq> [])"
| "truthy (Some v) = True"

fun typeof_number :: "json option \<Rightarrow> bool" where
  "typeof_number (Some (JNum lx)) = True"
| "typeof_number v = False"

subsection \<open>Numbers and Dates\<close>

text \<open>
  The numbers of the program are time values and durations in milliseconds: integers,
  or \<open>NaN\<close>.  A comparison with \<open>NaN\<close> is false.  A \<open>Date\<close> holds a time value:
  \<open>NaN\<close> (an invalid Date) or an integer of magnitude at most \<open>maxTime\<close>.  The session
  duration is taken as a whole number of hours and the arithmetic as that of the
  integers, which is the arithmetic of the doubles of the language as long as the
  magnitudes stay below \<open>2 ^ 53\<close> (a time value is at most \<open>maxTime\<close>, which is below).
\<close>

datatype number = NaN | Num int

datatype Date = Date (getTime: number)

fun num_add :: "number \<Rightarrow> number \<Rightarrow> number" where
  "num_add (Num a) (Num b) = Num (a + b)"
| "num_add a b = NaN"

fun num_lt :: "number \<Rightarrow> number \<Rightarrow> bool" where
  "num_lt (Num a) (Num b) = (a < b)"
| "num_lt a b = False"

fun num_le :: "number \<Rightarrow> number \<Rightarrow> bool" where
  "num_le (Num a) (Num b) = (a \<le> b)"
| "num_le a b = False"

definition num_gt :: "number \<Rightarrow> number \<Rightarrow> bool" where
  "num_gt a b = num_lt b a"

definition num_ge :: "number \<Rightarrow> number \<Rightarrow> bool" where
  "num_ge a b = num_le b a"

fun isNaN :: "number \<Rightarrow> bool" where
  "isNaN NaN = True"
| "isNaN (Num t) = False"

definition maxTime :: int where
  "maxTime = 8640000000000000"

fun TimeClip :: "number \<Rightarrow> number" where
  "TimeClip NaN = NaN"
| "TimeClip (Num t) = (if \<bar>t\<bar> > maxTime then NaN else Num t)"

text \<open>\<^verbatim>\<open>new Date(value)\<close> for a number.\<close>

definition new_Date :: "number \<Rightarrow> Date" where
  "new_Date v = Date (TimeClip v)"

text \<open>The time arithmetic of ECMA-262 21.4.1 (all divisions floor).\<close>

definition msPerDay :: int where "msPerDay = 86400000"
definition msPerHour :: int where "msPerHour = 3600000"
definition msPerMinute :: int where "msPerMinute = 60000"
definition msPerSecond :: int where "msPerSecond = 1000"

definition Day :: "int \<Rightarrow> int" where
  "Day t = t div msPerDay"

definition HourFromTime :: "int \<Rightarrow> int" where
  "HourFromTime t = (t div msPerHour) mod 24"

definition MinFromTime :: "int \<Rightarrow> int" where
  "MinFromTime t = (t div msPerMinute) mod 60"

definition SecFromTime :: "int \<Rightarrow> int" where
  "SecFromTime t = (t div msPerSecond) mod 60"

definition msFromTime :: "int \<Rightarrow> int" where
  "msFromTime t = t mod msPerSecond"

definition MakeTime :: "int \<Rightarrow> int \<Rightarrow> int \<Rightarrow> int \<Rightarrow> int" where
  "MakeTime hour minute sec ms = hour * msPerHour + minute * msPerMinute + sec * msPerSecond + ms"

definition MakeDate :: "int \<Rightarrow> int \<Rightarrow> int" where
  "MakeDate day time = day * msPerDay + time"

definition DayFromYear :: "int \<Rightarrow> int" where
  "DayFromYear y =
     365 * (y - 1970) + (y - 1969) div 4 - (y - 1901) div 100 + (y - 1601) div 400"

definition InLeapYear :: "int \<Rightarrow> bool" where
  "InLeapYear y = (y mod 4 = 0 \<and> (y mod 100 \<noteq> 0 \<or> y mod 400 = 0))"

definition DaysInYear :: "int \<Rightarrow> int" where
  "DaysInYear y = (if InLeapYear y then 366 else 365)"

text \<open>
  \<open>YearFromDay d\<close> is the year \<open>y\<close> with \<open>DayFromYear y \<le> d < DayFromYear (y + 1)\<close>:
  an estimate from the mean length of a year, corrected by at most one.
\<close>

definition YearFromDay :: "int \<Rightarrow> int" where
  "YearFromDay d =
     (let y = 1970 + (400 * d) div 146097 in
      if DayFromYear (y + 1) \<le> d then y + 1
      else if DayFromYear y \<le> d then y
      else y - 1)"

definition YearFromTime :: "int \<Rightarrow> int" where
  "YearFromTime t = YearFromDay (Day t)"

definition DayWithinYear :: "int \<Rightarrow> int" where
  "DayWithinYear t = Day t - DayFromYear (YearFromTime t)"

text \<open>The day of the year on which month \<open>m\<close> (0 to 11, and 12 for the end) starts.\<close>

definition month_start :: "bool \<Rightarrow> int \<Rightarrow> int" where
  "month_start leap m =
     (if m \<le> 0 then 0 else if m = 1 then 31
      else (if leap then 1 else 0) +
        (if m = 2 then 59 else if m = 3 then 90 else if m = 4 then 120
         else if m = 5 then 151 else if m = 6 then 181 else if m = 7 then 212
         else if m = 8 then 243 else if m = 9 then 273 else if m = 10 then 304
         else if m = 11 then 334 else 365))"

definition month_of_day :: "bool \<Rightarrow> int \<Rightarrow> int" where
  "month_of_day leap dy =
     (if dy < month_start leap 1 then 0 else if dy < month_start leap 2 then 1
      else if dy < month_start leap 3 then 2 else if dy < month_start leap 4 then 3
      else if dy < month_start leap 5 then 4 else if dy < month_start leap 6 then 5
      else if dy < month_start leap 7 then 6 else if dy < month_start leap 8 then 7
      else if dy < month_start leap 9 then 8 else if dy < month_start leap 10 then 9
      else if dy < month_start leap 11 then 10 else 11)"

definition MonthFromTime :: "int \<Rightarrow> int" where
  "MonthFromTime t = month_of_day (InLeapYear (YearFromTime t)) (DayWithinYear t)"

definition DateFromTime :: "int \<Rightarrow> int" where
  "DateFromTime t =
     DayWithinYear t - month_start (InLeapYear (YearFromTime t)) (MonthFromTime t) + 1"

text \<open>\<open>MakeDay\<close> for a month from 0 to 11.\<close>

definition MakeDay :: "int \<Rightarrow> int \<Rightarrow> int \<Rightarrow> int" where
  "MakeDay year month date = DayFromYear year + month_start (InLeapYear year) month + date - 1"

definition getUTCMinutes :: "Date \<Rightarrow> number" where
  "getUTCMinutes d = (case getTime d of NaN \<Rightarrow> NaN | Num t \<Rightarrow> Num (MinFromTime t))"

definition getUTCSeconds :: "Date \<Rightarrow> number" where
  "getUTCSeconds d = (case getTime d of NaN \<Rightarrow> NaN | Num t \<Rightarrow> Num (SecFromTime t))"

definition getUTCMilliseconds :: "Date \<Rightarrow> number" where
  "getUTCMilliseconds d = (case getTime d of NaN \<Rightarrow> NaN | Num t \<Rightarrow> Num (msFromTime t))"

text \<open>
  \<^verbatim>\<open>setUTCMinutes(0, 0, 0)\<close> (ECMA-262 21.4.4.32) on a copy of the Date: the source's
  \<^verbatim>\<open>floorToHour\<close>.
\<close>

definition setUTCMinutes :: "Date \<Rightarrow> int \<Rightarrow> int \<Rightarrow> int \<Rightarrow> Date" where
  "setUTCMinutes d m s milli =
     (case getTime d of
        NaN \<Rightarrow> Date NaN
      | Num t \<Rightarrow> Date (TimeClip (Num (MakeDate (Day t) (MakeTime (HourFromTime t) m s milli)))))"

definition floorToHour :: "Date \<Rightarrow> Date" where
  "floorToHour timestamp = setUTCMinutes (Date (getTime timestamp)) 0 0 0"

subsection \<open>Date strings\<close>

definition digit :: "int \<Rightarrow> nat" where
  "digit n = 48 + nat n"

definition pad2 :: "int \<Rightarrow> jsstring" where
  "pad2 n = [digit (n div 10), digit (n mod 10)]"

definition pad3 :: "int \<Rightarrow> jsstring" where
  "pad3 n = [digit (n div 100), digit (n div 10 mod 10), digit (n mod 10)]"

definition pad4 :: "int \<Rightarrow> jsstring" where
  "pad4 n = [digit (n div 1000), digit (n div 100 mod 10), digit (n div 10 mod 10), digit (n mod 10)]"

definition pad6 :: "int \<Rightarrow> jsstring" where
  "pad6 n = [digit (n div 100000), digit (n div 10000 mod 10), digit (n div 1000 mod 10),
             digit (n div 100 mod 10), digit (n div 10 mod 10), digit (n mod 10)]"

definition year_string :: "int \<Rightarrow> jsstring" where
  "year_string y =
     (if 0 \<le> y \<and> y \<le> 9999 then pad4 y
      else if y < 0 then 45 # pad6 (- y) else 43 # pad6 y)"

text \<open>
  \<^verbatim>\<open>Date.prototype.toISOString\<close> (ECMA-262 21.4.4.36): a RangeError on an invalid Date,
  else \<^verbatim>\<open>YYYY-MM-DDTHH:mm:ss.sssZ\<close> with an expanded year outside 0 to 9999.
\<close>

definition toISOString :: "Date \<Rightarrow> jsstring res" where
  "toISOString d =
     (case getTime d of
        NaN \<Rightarrow> Throws
      | Num t \<Rightarrow>
          Returns (year_string (YearFromTime t) @ [45] @ pad2 (MonthFromTime t + 1) @ [45] @
                   pad2 (DateFromTime t) @ [84] @ pad2 (HourFromTime t) @ [58] @
                   pad2 (MinFromTime t) @ [58] @ pad2 (SecFromTime t) @ [46] @
                   pad3 (msFromTime t) @ [90]))"

definition digits_val :: "jsstring \<Rightarrow> int option" where
  "digits_val s =
     (if list_all is_digit s then Some (foldl (\<lambda>n c. 10 * n + (int c - 48)) 0 s) else None)"

definition DaysInMonth :: "int \<Rightarrow> int \<Rightarrow> int" where
  "DaysInMonth y m = month_start (InLeapYear y) (m + 1) - month_start (InLeapYear y) m"

text \<open>
  The part of \<^verbatim>\<open>Date.parse\<close> that ECMA-262 21.4.1.32 fixes for every engine: a complete
  UTC date-time \<^verbatim>\<open>YYYY-MM-DDTHH:mm:ss.sssZ\<close> (or with an expanded year
  \<^verbatim>\<open>+YYYYYY\<close>, \<^verbatim>\<open>-YYYYYY\<close>, not \<^verbatim>\<open>-000000\<close>) whose fields are legal.
\<close>

definition iso_fields :: "int \<Rightarrow> jsstring \<Rightarrow> int option" where
  "iso_fields y r =
     (if length r = 20 \<and> r ! 0 = 45 \<and> r ! 3 = 45 \<and> r ! 6 = 84 \<and> r ! 9 = 58 \<and>
         r ! 12 = 58 \<and> r ! 15 = 46 \<and> r ! 19 = 90
      then
        Option.bind (digits_val (take 2 (drop 1 r))) (\<lambda>mo.
        Option.bind (digits_val (take 2 (drop 4 r))) (\<lambda>dd.
        Option.bind (digits_val (take 2 (drop 7 r))) (\<lambda>hh.
        Option.bind (digits_val (take 2 (drop 10 r))) (\<lambda>mi.
        Option.bind (digits_val (take 2 (drop 13 r))) (\<lambda>ss.
        Option.bind (digits_val (take 3 (drop 16 r))) (\<lambda>ms.
          if 1 \<le> mo \<and> mo \<le> 12 \<and> 1 \<le> dd \<and> dd \<le> DaysInMonth y (mo - 1) \<and>
             hh \<le> 23 \<and> mi \<le> 59 \<and> ss \<le> 59
          then Some (MakeDate (MakeDay y (mo - 1) dd) (MakeTime hh mi ss ms))
          else None))))))
      else None)"

definition iso_utc_parse :: "jsstring \<Rightarrow> int option" where
  "iso_utc_parse s =
     (case s of
        [] \<Rightarrow> None
      | c # cs \<Rightarrow>
          (if c = 43 \<or> c = 45 then
             (case digits_val (take 6 cs) of
                Some y \<Rightarrow>
                  (if length cs < 6 \<or> (c = 45 \<and> y = 0) then None
                   else iso_fields (if c = 45 then - y else y) (drop 6 cs))
              | None \<Rightarrow> None)
           else
             (case digits_val (take 4 s) of
                Some y \<Rightarrow> (if length s < 4 then None else iso_fields y (drop 4 s))
              | None \<Rightarrow> None)))"

text \<open>
  \<^verbatim>\<open>new Date(string)\<close>.  For a string outside the fixed part an engine may return
  anything (other formats of the standard, local-time forms, its own heuristics):
  \<open>other\<close> is that function of the engine.
\<close>

definition Date_parse :: "(jsstring \<Rightarrow> number) \<Rightarrow> jsstring \<Rightarrow> number" where
  "Date_parse other s = (case iso_utc_parse s of Some t \<Rightarrow> Num t | None \<Rightarrow> other s)"

definition new_Date_string :: "(jsstring \<Rightarrow> number) \<Rightarrow> jsstring \<Rightarrow> Date" where
  "new_Date_string other s = Date (TimeClip (Date_parse other s))"

subsection \<open>JSON.stringify of the cache record\<close>

definition hexdigit :: "nat \<Rightarrow> nat" where
  "hexdigit n = (if n < 10 then 48 + n else 87 + n)"

definition unicode_escape :: "nat \<Rightarrow> jsstring" where
  "unicode_escape c =
     [92, 117, hexdigit (c div 4096 mod 16), hexdigit (c div 256 mod 16),
      hexdigit (c div 16 mod 16), hexdigit (c mod 16)]"

definition quote_unit :: "nat \<Rightarrow> jsstring" where
  "quote_unit c =
     (if c = 8 then [92, 98] else if c = 9 then [92, 116] else if c = 10 then [92, 110]
      else if c = 12 then [92, 102] else if c = 13 then [92, 114]
      else if c = 34 then [92, 34] else if c = 92 then [92, 92]
      else if c < 32 then unicode_escape c else [c])"

definition leading_surrogate :: "nat \<Rightarrow> bool" where
  "leading_surrogate c = (55296 \<le> c \<and> c \<le> 56319)"

definition trailing_surrogate :: "nat \<Rightarrow> bool" where
  "trailing_surrogate c = (56320 \<le> c \<and> c \<le> 57343)"

text \<open>\<^verbatim>\<open>QuoteJSONString\<close> (ECMA-262 25.5.2.3) without the enclosing quotes.\<close>

fun quote_units :: "jsstring \<Rightarrow> jsstring" where
  "quote_units [] = []"
| "quote_units [c] =
     (if leading_surrogate c \<or> trailing_surrogate c then unicode_escape c else quote_unit c)"
| "quote_units (c # d # cs) =
     (if leading_surrogate c then
        (if trailing_surrogate d then c # d # quote_units cs
         else unicode_escape c @ quote_units (d # cs))
      else if trailing_surrogate c then unicode_escape c @ quote_units (d # cs)
      else quote_unit c @ quote_units (d # cs))"

text \<open>
  \<^verbatim>\<open>JSON.stringify(cache)\<close> for \<^verbatim>\<open>cache: BlockCache = { startTime: iso }\<close>.
\<close>

definition JSON_stringify_BlockCache :: "jsstring \<Rightarrow> jsstring" where
  "JSON_stringify_BlockCache isoString =
     [123, 34] @ str ''startTime'' @ [34, 58, 34] @ quote_units isoString @ [34, 125]"

section \<open>The log files\<close>

text \<open>
  \<^verbatim>\<open>String.prototype.trim\<close> strips the white space and line terminators of ECMA-262.
\<close>

definition js_space :: "nat \<Rightarrow> bool" where
  "js_space c =
     (c = 9 \<or> c = 10 \<or> c = 11 \<or> c = 12 \<or> c = 13 \<or> c = 32 \<or> c = 160 \<or> c = 5760 \<or>
      (8192 \<le> c \<and> c \<le> 8202) \<or> c = 8232 \<or> c = 8233 \<or> c = 8239 \<or> c = 8287 \<or>
      c = 12288 \<or> c = 65279)"

definition trim :: "jsstring \<Rightarrow> jsstring" where
  "trim s = rev (dropWhile js_space (rev (dropWhile js_space s)))"

text \<open>\<^verbatim>\<open>s.split('\n')\<close>.\<close>

fun split_lines :: "jsstring \<Rightarrow> jsstring list" where
  "split_lines [] = [[]]"
| "split_lines (c # cs) =
     (if c = 10 then [] # split_lines cs
      else (case split_lines cs of [] \<Rightarrow> [[c]] | l # ls \<Rightarrow> (c # l) # ls))"

text \<open>
  The body of the inner \<^verbatim>\<open>try\<close> of \<^verbatim>\<open>getAllTimestampsFromFile\<close> for one line:
  \<open>Returns (Some t)\<close> pushes the Date with time value \<open>t\<close> (valid, by the guard before the
  push), \<open>Returns None\<close> is a \<^verbatim>\<open>continue\<close>, \<open>Throws\<close> goes to the \<^verbatim>\<open>catch\<close>.
\<close>

definition line_body :: "(jsstring \<Rightarrow> number) \<Rightarrow> jsstring \<Rightarrow> int option res" where
  "line_body other line =
     bind (JSON_parse line) (\<lambda>json.
     bind (get_prop json (str ''message'')) (\<lambda>message.
     bind (get_prop_opt message (str ''usage'')) (\<lambda>usage.
       if \<not> truthy usage then Returns None
       else
         bind (get_member usage (str ''input_tokens'')) (\<lambda>input_tokens.
         bind (get_member usage (str ''output_tokens'')) (\<lambda>output_tokens.
           let hasInputTokens = typeof_number input_tokens;
               hasOutputTokens = typeof_number output_tokens
           in
           if \<not> hasInputTokens \<or> \<not> hasOutputTokens then Returns None
           else
             bind (get_prop json (str ''isSidechain'')) (\<lambda>isSidechain.
               if isSidechain = Some (JBool True) then Returns None
               else
                 bind (get_prop json (str ''timestamp'')) (\<lambda>timestamp.
                   (case timestamp of
                      Some (JStr ts) \<Rightarrow>
                        (case getTime (new_Date_string other ts) of
                           Num t \<Rightarrow> Returns (Some t)
                         | NaN \<Rightarrow> Returns None)
                    | _ \<Rightarrow> Returns None))))))))"

definition line_timestamps :: "(jsstring \<Rightarrow> number) \<Rightarrow> jsstring \<Rightarrow> int list" where
  "line_timestamps other line =
     (case try_catch (line_body other line) None of None \<Rightarrow> [] | Some t \<Rightarrow> [t])"

definition file_lines :: "jsstring \<Rightarrow> jsstring list" where
  "file_lines content = filter (\<lambda>line. length line > 0) (split_lines (trim content))"

text \<open>
  \<^verbatim>\<open>getAllTimestampsFromFile\<close>: the argument is what \<^verbatim>\<open>readFile\<close> gives for the path,
  \<open>None\<close> when it throws.  The list holds the time values of the Dates pushed.
\<close>

definition getAllTimestampsFromFile :: "(jsstring \<Rightarrow> number) \<Rightarrow> jsstring option \<Rightarrow> int list" where
  "getAllTimestampsFromFile other file_content =
     try_catch
       (bind (case file_content of None \<Rightarrow> Throws | Some c \<Rightarrow> Returns c) (\<lambda>content.
          Returns (concat (map (line_timestamps other) (file_lines content)))))
       []"

section \<open>The file system, the clock and the effects\<close>

text \<open>
  A log file as the locator sees it: what \<^verbatim>\<open>stat\<close> gives for its modification time
  and what \<^verbatim>\<open>readFile\<close> gives for its content; \<open>None\<close> is a call that throws.
\<close>

record logfile =
  path :: string
  mtime :: "int option"
  content :: "jsstring option"

datatype event =
    ReadCache
  | MkdirCache
  | WriteCache jsstring
  | Glob
  | Stat string
  | ReadLog string

text \<open>
  The world of one call.  \<open>cache_file\<close> is the content of the cache file (\<open>None\<close>: it
  cannot be read); \<open>mkdir_ok\<close> and \<open>writeFile_ok\<close> say whether creating the cache
  directory and writing the cache file succeed (a write that fails leaves the file as
  it was); \<open>claudeDir\<close> is the result of \<^verbatim>\<open>getClaudeConfigDir()\<close>, which is not part of
  the module; \<open>glob_result\<close> is what \<^verbatim>\<open>glob\<close> finds for the pattern (\<open>None\<close>: it throws);
  \<open>parse_other\<close> is the engine's part of \<^verbatim>\<open>Date.parse\<close>; \<open>now_cache\<close> and \<open>now_scan\<close> are
  the readings of \<^verbatim>\<open>new Date()\<close> in \<^verbatim>\<open>getCachedBlockMetrics\<close> and in
  \<^verbatim>\<open>findMostRecentBlockStartTime\<close>; \<open>trace\<close> records the file system calls in order.
\<close>

record world =
  cache_file :: "jsstring option"
  mkdir_ok :: bool
  writeFile_ok :: bool
  claudeDir :: "string option"
  glob_result :: "logfile list option"
  parse_other :: "jsstring \<Rightarrow> number"
  now_cache :: int
  now_scan :: int
  trace :: "event list"

definition emit :: "event list \<Rightarrow> world \<Rightarrow> world" where
  "emit es w = w\<lparr>trace := trace w @ es\<rparr>"

record BlockMetrics =
  startTime :: Date
  lastActivity :: Date

section \<open>Block cache functions\<close>

definition readBlockCache_body :: "world \<Rightarrow> Date option res" where
  "readBlockCache_body w =
     bind (case cache_file w of None \<Rightarrow> Throws | Some c \<Rightarrow> Returns c) (\<lambda>content.
     bind (JSON_parse content) (\<lambda>cache.
     bind (get_prop cache (str ''startTime'')) (\<lambda>cache_startTime.
       (case cache_startTime of
          Some (JStr s) \<Rightarrow>
            (let date = new_Date_string (parse_other w) s in
             if isNaN (getTime date) then Returns None else Returns (Some date))
        | _ \<Rightarrow> Returns None))))"

definition readBlockCache :: "world \<Rightarrow> Date option res \<times> world" where
  "readBlockCache w = (Returns (try_catch (readBlockCache_body w) None), emit [ReadCache] w)"

definition writeBlockCache :: "Date \<Rightarrow> world \<Rightarrow> unit res \<times> world" where
  "writeBlockCache startTime' w =
     (let w1 = emit [MkdirCache] w in
      if \<not> mkdir_ok w then (Returns (), w1)
      else
        (case toISOString startTime' of
           Throws \<Rightarrow> (Returns (), w1)
         | Returns isoString \<Rightarrow>
             (let text = JSON_stringify_BlockCache isoString;
                  w2 = emit [WriteCache text] w1
              in if writeFile_ok w then (Returns (), w2\<lparr>cache_file := Some text\<rparr>)
                 else (Returns (), w2))))"

section \<open>The block locator\<close>

text \<open>
  \<^verbatim>\<open>const sessionDurationMs = sessionDurationHours * 60 * 60 * 1000\<close>, in the cache and
  in the locator.
\<close>

definition sessionDurationMs :: "int \<Rightarrow> int" where
  "sessionDurationMs sessionDurationHours = sessionDurationHours * 60 * 60 * 1000"

definition lookbackChunks :: "int list" where
  "lookbackChunks = [10, 20, 48]"

text \<open>
  The inner loop of step 3: walk the files, most recently modified first, and stop at
  the first one modified before the cutoff.
\<close>

fun collect_timestamps ::
  "(jsstring \<Rightarrow> number) \<Rightarrow> number \<Rightarrow> (logfile \<times> int) list \<Rightarrow> int list \<times> event list" where
  "collect_timestamps other cutoff [] = ([], [])"
| "collect_timestamps other cutoff ((f, mt) # rest) =
     (if num_lt (Num mt) cutoff then ([], [])
      else
        (let (ts, evs) = collect_timestamps other cutoff rest
         in (getAllTimestampsFromFile other (content f) @ ts, ReadLog (path f) # evs)))"

text \<open>
  The search for a session gap, from index 1 on: \<open>prev\<close> is \<^verbatim>\<open>timestamps[i - 1]\<close>; the
  result is \<^verbatim>\<open>continuousWorkStart\<close> and \<^verbatim>\<open>foundSessionGap\<close>.  The test
  \<^verbatim>\<open>if (!currentTimestamp || !previousTimestamp) continue\<close> never fires: both are Date
  objects of the array.
\<close>

fun gap_walk :: "int \<Rightarrow> int \<Rightarrow> int list \<Rightarrow> int \<Rightarrow> int \<times> bool" where
  "gap_walk dur prev [] cws = (cws, False)"
| "gap_walk dur prev (cur # rest) cws =
     (if prev - cur \<ge> dur then (cws, True) else gap_walk dur cur rest cur)"

record scan =
  timestamps :: "int list"
  mostRecentTimestamp :: "int option"
  continuousWorkStart :: "int option"
  foundSessionGap :: bool

text \<open>
  How one pass of the loop over the lookback chunks ends: it goes on with the next
  chunk (at the end of the body or by \<^verbatim>\<open>continue\<close>), leaves the loop (\<^verbatim>\<open>break\<close>), or
  leaves the function (\<^verbatim>\<open>return null\<close>).
\<close>

datatype control = Next scan | Break scan | ReturnNull

definition cutoffTime :: "int \<Rightarrow> int \<Rightarrow> Date" where
  "cutoffTime now lookbackHours = new_Date (Num (now - lookbackHours * 60 * 60 * 1000))"

definition horizon_pass ::
  "(jsstring \<Rightarrow> number) \<Rightarrow> int \<Rightarrow> int \<Rightarrow> (logfile \<times> int) list \<Rightarrow> int \<Rightarrow> scan \<Rightarrow>
     control \<times> event list" where
  "horizon_pass other now dur files lookbackHours s =
     (let (collected, evs) =
            collect_timestamps other (getTime (cutoffTime now lookbackHours)) files
      in
      (case sort_key uminus collected of
         [] \<Rightarrow> (Next (s\<lparr>timestamps := []\<rparr>), evs)
       | newest # older \<Rightarrow>
           (let fresh = (mostRecentTimestamp s = None);
                mostRecent = (case mostRecentTimestamp s of None \<Rightarrow> newest | Some m \<Rightarrow> m)
            in
            if fresh \<and> now - mostRecent > dur then (ReturnNull, evs)
            else
              (let (cws, found) = gap_walk dur newest older mostRecent;
                   s' = \<lparr>timestamps = newest # older, mostRecentTimestamp = Some mostRecent,
                         continuousWorkStart = Some cws, foundSessionGap = found\<rparr>
               in
               if found then (Break s', evs)
               else if lookbackHours = last lookbackChunks then (Break s', evs)
               else (Next s', evs)))))"

text \<open>
  The loop over the lookback chunks.  The first component is \<open>None\<close> when the loop
  leaves the function with \<^verbatim>\<open>return null\<close>, else the variables after the loop.
\<close>

fun lookback ::
  "(jsstring \<Rightarrow> number) \<Rightarrow> int \<Rightarrow> int \<Rightarrow> (logfile \<times> int) list \<Rightarrow> int list \<Rightarrow> scan \<Rightarrow>
     scan option \<times> event list" where
  "lookback other now dur files [] s = (Some s, [])"
| "lookback other now dur files (lookbackHours # chunks) s =
     (case horizon_pass other now dur files lookbackHours s of
        (Next s', evs) \<Rightarrow>
          (let (r, evs') = lookback other now dur files chunks s' in (r, evs @ evs'))
      | (Break s', evs) \<Rightarrow> (Some s', evs)
      | (ReturnNull, evs) \<Rightarrow> (None, evs))"

record block =
  block_start :: Date
  block_end :: Date

text \<open>
  Step 5: the blocks, from the timestamps in ascending order.  \<open>cur\<close> is the pair
  \<^verbatim>\<open>currentBlockStart\<close>, \<^verbatim>\<open>currentBlockEnd\<close> (both \<^verbatim>\<open>null\<close> at first, and set together).
\<close>

fun build_blocks :: "int \<Rightarrow> int \<Rightarrow> int list \<Rightarrow> (Date \<times> Date) option \<Rightarrow> block list" where
  "build_blocks dur cws [] cur = []"
| "build_blocks dur cws (t # ts) cur =
     (if t < cws then build_blocks dur cws ts cur
      else if (case cur of None \<Rightarrow> True | Some (cbs, cbe) \<Rightarrow> num_gt (Num t) (getTime cbe))
      then
        (let currentBlockStart = floorToHour (Date (Num t));
             currentBlockEnd = new_Date (num_add (getTime currentBlockStart) (Num dur))
         in \<lparr>block_start = currentBlockStart, block_end = currentBlockEnd\<rparr> #
            build_blocks dur cws ts (Some (currentBlockStart, currentBlockEnd)))
      else build_blocks dur cws ts cur)"

definition contains_time :: "block \<Rightarrow> int \<Rightarrow> bool" where
  "contains_time b t =
     (num_ge (Num t) (getTime (block_start b)) \<and> num_le (Num t) (getTime (block_end b)))"

definition hasActivity :: "int list \<Rightarrow> block \<Rightarrow> bool" where
  "hasActivity ts b = list_ex (contains_time b) ts"

text \<open>Step 6: the first block that contains now and has activity.\<close>

fun find_current :: "int \<Rightarrow> int list \<Rightarrow> int \<Rightarrow> block list \<Rightarrow> BlockMetrics option" where
  "find_current now ts mostRecent [] = None"
| "find_current now ts mostRecent (b # bs) =
     (if contains_time b now \<and> hasActivity ts b
      then Some \<lparr>startTime = block_start b, lastActivity = Date (Num mostRecent)\<rparr>
      else find_current now ts mostRecent bs)"

text \<open>The statements after the loop over the lookback chunks.\<close>

definition select_block :: "int \<Rightarrow> int \<Rightarrow> scan \<Rightarrow> BlockMetrics option" where
  "select_block now dur s =
     (case (mostRecentTimestamp s, continuousWorkStart s) of
        (Some mostRecent, Some cws) \<Rightarrow>
          find_current now (timestamps s) mostRecent
            (build_blocks dur cws (sort_key (\<lambda>t. t) (timestamps s)) None)
      | _ \<Rightarrow> None)"

definition stat_all :: "logfile list \<Rightarrow> (logfile \<times> int) list res" where
  "stat_all files =
     (if list_all (\<lambda>f. mtime f \<noteq> None) files
      then Returns (map (\<lambda>f. (f, the (mtime f))) files)
      else Throws)"

definition initial_scan :: scan where
  "initial_scan = \<lparr>timestamps = [], mostRecentTimestamp = None, continuousWorkStart = None,
                    foundSessionGap = False\<rparr>"

definition findMostRecentBlockStartTime ::
  "string \<Rightarrow> int \<Rightarrow> world \<Rightarrow> BlockMetrics option res \<times> world" where
  "findMostRecentBlockStartTime rootDir sessionDurationHours w =
     (let now = now_scan w;
          w1 = emit [Glob] w
      in
      (case glob_result w of
         None \<Rightarrow> (Throws, w1)
       | Some files \<Rightarrow>
           if length files = 0 then (Returns None, w1)
           else
             (let w2 = emit (map (\<lambda>f. Stat (path f)) files) w1 in
              (case stat_all files of
                 Throws \<Rightarrow> (Throws, w2)
               | Returns stats \<Rightarrow>
                   (let filesWithStats = sort_key (\<lambda>(f, mt). - mt) stats;
                        (r, evs) = lookback (parse_other w) now
                                     (sessionDurationMs sessionDurationHours) filesWithStats
                                     lookbackChunks initial_scan;
                        w3 = emit evs w2
                    in
                    (case r of
                       None \<Rightarrow> (Returns None, w3)
                     | Some s \<Rightarrow>
                         (Returns (select_block now (sessionDurationMs sessionDurationHours) s),
                          w3)))))))"

definition getBlockMetrics :: "world \<Rightarrow> BlockMetrics option res \<times> world" where
  "getBlockMetrics w =
     (case claudeDir w of
        None \<Rightarrow> (Returns None, w)
      | Some dir \<Rightarrow>
          if dir = [] then (Returns None, w)
          else
            (let (r, w') = findMostRecentBlockStartTime dir 5 w
             in (Returns (try_catch r None), w')))"

definition getCachedBlockMetrics :: "int \<Rightarrow> world \<Rightarrow> BlockMetrics option res \<times> world" where
  "getCachedBlockMetrics sessionDurationHours w =
     (let now = Date (Num (now_cache w));
          (r, w1) = readBlockCache w;
          miss = (let (r', w2) = getBlockMetrics w1 in
                  (case r' of
                     Throws \<Rightarrow> (Throws, w2)
                   | Returns None \<Rightarrow> (Returns None, w2)
                   | Returns (Some metrics) \<Rightarrow>
                       (let (u, w3) = writeBlockCache (startTime metrics) w2 in
                        (case u of Throws \<Rightarrow> (Throws, w3)
                         | Returns x \<Rightarrow> (Returns (Some metrics), w3)))))
      in
      (case r of
         Throws \<Rightarrow> (Throws, w1)
       | Returns None \<Rightarrow> miss
       | Returns (Some cachedStartTime) \<Rightarrow>
           (let blockEndTime =
                  new_Date (num_add (getTime cachedStartTime)
                              (Num (sessionDurationMs sessionDurationHours)))
            in
            if num_le (getTime now) (getTime blockEndTime)
            then (Returns (Some \<lparr>startTime = cachedStartTime, lastActivity = now\<rparr>), w1)
            else miss)))"

section \<open>Strings of the cache file\<close>

text \<open>
  The part of an ISO string after the year, and the code units that
  \<^verbatim>\<open>JSON.stringify\<close> writes as they are and \<^verbatim>\<open>JSON.parse\<close> reads as they are.
\<close>

definition time_string :: "int \<Rightarrow> int \<Rightarrow> int \<Rightarrow> int \<Rightarrow> int \<Rightarrow> int \<Rightarrow> jsstring" where
  "time_string mo dd hh mi ss ms =
     [45] @ pad2 mo @ [45] @ pad2 dd @ [84] @ pad2 hh @ [58] @ pad2 mi @ [58] @ pad2 ss @
     [46] @ pad3 ms @ [90]"

definition plain_unit :: "nat \<Rightarrow> bool" where
  "plain_unit c = (32 \<le> c \<and> c \<noteq> 34 \<and> c \<noteq> 92 \<and> c < 55296)"

section \<open>Notions of the specification\<close>



text \<open>The timestamps the log files of a list hold.\<close>

definition observed :: "(jsstring \<Rightarrow> number) \<Rightarrow> (logfile \<times> int) list \<Rightarrow> int set" where
  "observed other files = (\<Union>(f, mt) \<in> set files. set (getAllTimestampsFromFile other (content f)))"

text \<open>
  When a line of a log file contributes a timestamp, in the words of the log file
  contract: the parsed line has a nested usage object with numeric input-token and
  output-token fields, is not flagged as a sidechain entry, and has a string
  timestamp that parses to a valid date.
\<close>

definition usage_object :: "json \<Rightarrow> (jsstring \<times> json) list option" where
  "usage_object j =
     (case j of
        JObj props \<Rightarrow>
          (case map_of props (str ''message'') of
             Some (JObj mprops) \<Rightarrow>
               (case map_of mprops (str ''usage'') of
                  Some (JObj uprops) \<Rightarrow> Some uprops
                | _ \<Rightarrow> None)
           | _ \<Rightarrow> None)
      | _ \<Rightarrow> None)"

definition numeric_field :: "(jsstring \<times> json) list \<Rightarrow> jsstring \<Rightarrow> bool" where
  "numeric_field props k = (case map_of props k of Some (JNum n) \<Rightarrow> True | _ \<Rightarrow> False)"

definition flagged_sidechain :: "json \<Rightarrow> bool" where
  "flagged_sidechain j =
     (case j of JObj props \<Rightarrow> map_of props (str ''isSidechain'') = Some (JBool True)
      | _ \<Rightarrow> False)"

definition string_timestamp :: "json \<Rightarrow> jsstring option" where
  "string_timestamp j =
     (case j of
        JObj props \<Rightarrow>
          (case map_of props (str ''timestamp'') of Some (JStr s) \<Rightarrow> Some s | _ \<Rightarrow> None)
      | _ \<Rightarrow> None)"

definition contributes :: "(jsstring \<Rightarrow> number) \<Rightarrow> jsstring \<Rightarrow> int option" where
  "contributes other line =
     (case JSON_parse line of
        Throws \<Rightarrow> None
      | Returns j \<Rightarrow>
          (case usage_object j of
             None \<Rightarrow> None
           | Some uprops \<Rightarrow>
               if numeric_field uprops (str ''input_tokens'') \<and>
                  numeric_field uprops (str ''output_tokens'') \<and> \<not> flagged_sidechain j
               then
                 (case string_timestamp j of
                    None \<Rightarrow> None
                  | Some s \<Rightarrow>
                      (case getTime (new_Date_string other s) of
                         NaN \<Rightarrow> None
                       | Num t \<Rightarrow> Some t))
               else None))"

text \<open>
  The lines of a log file, in the words of the log file contract: the content is
  white space \<open>a\<close>, the lines \<open>ls\<close> with a line feed between two of them, and white
  space \<open>b\<close>, where no line holds a line feed and the text of the lines neither begins
  nor ends with white space.  White space is the WhiteSpace and LineTerminator of
  ECMA-262, given here by its code points; it is more than the white space of JSON
  (tab, line feed, carriage return, space).
\<close>

definition white_space_code_points :: "nat list" where
  "white_space_code_points =
     [9, 11, 12, 32, 160, 5760, 8192, 8193, 8194, 8195, 8196, 8197, 8198, 8199, 8200, 8201,
      8202, 8239, 8287, 12288, 65279]"

definition line_terminator_code_points :: "nat list" where
  "line_terminator_code_points = [10, 13, 8232, 8233]"

definition white :: "nat \<Rightarrow> bool" where
  "white c = (c \<in> set white_space_code_points \<or> c \<in> set line_terminator_code_points)"

fun join_lines :: "jsstring list \<Rightarrow> jsstring" where
  "join_lines [] = []"
| "join_lines [l] = l"
| "join_lines (l # l' # ls) = l @ [10] @ join_lines (l' # ls)"

definition trimmed_lines :: "jsstring \<Rightarrow> jsstring list \<Rightarrow> jsstring \<Rightarrow> jsstring \<Rightarrow> bool" where
  "trimmed_lines a ls b c =
     (c = a @ join_lines ls @ b \<and> list_all white a \<and> list_all white b \<and>
      ls \<noteq> [] \<and> list_all (\<lambda>l. 10 \<notin> set l) ls \<and>
      (join_lines ls = [] \<or> \<not> white (hd (join_lines ls)) \<and> \<not> white (last (join_lines ls))))"



definition cache_valid :: "int \<Rightarrow> world \<Rightarrow> bool" where
  "cache_valid d w =
     (case fst (readBlockCache w) of
        Returns (Some cachedStartTime) \<Rightarrow>
          num_le (Num (now_cache w))
            (getTime (new_Date (num_add (getTime cachedStartTime) (Num (sessionDurationMs d)))))
      | _ \<Rightarrow> False)"




text \<open>
  The most recent activity the locator finds: the timestamps of the first lookback
  chunk that yields any, with the reads of the passes up to that chunk.
\<close>

fun first_timestamps ::
  "(jsstring \<Rightarrow> number) \<Rightarrow> int \<Rightarrow> (logfile \<times> int) list \<Rightarrow> int list \<Rightarrow>
     (int list \<times> event list) option" where
  "first_timestamps other now files [] = None"
| "first_timestamps other now files (h # hs) =
     (let (ts, evs) = collect_timestamps other (getTime (cutoffTime now h)) files in
      if ts \<noteq> [] then Some (ts, evs)
      else map_option (\<lambda>(ts', evs'). (ts', evs @ evs')) (first_timestamps other now files hs))"

text \<open>The timestamps the log files of a world hold: the observed timestamps.\<close>

definition world_timestamps :: "world \<Rightarrow> int set" where
  "world_timestamps w =
     (case glob_result w of
        None \<Rightarrow> {}
      | Some files \<Rightarrow>
          (\<Union>f \<in> set files. set (getAllTimestampsFromFile (parse_other w) (content f))))"

section \<open>Example worlds\<close>




text \<open>
  A world without a cache file and with one log file, which holds one entry with token
  usage, made at 22:30 UTC on 29 February 2024.
\<close>

definition log_line :: "string \<Rightarrow> jsstring" where
  \<open>log_line ts = str ''{"timestamp":"'' @ str ts @
     str ''","message":{"usage":{"input_tokens":1,"output_tokens":2}}}''\<close>

definition w_log :: world where
  "w_log = \<lparr>cache_file = None, mkdir_ok = True, writeFile_ok = True,
     claudeDir = Some ''/home/u/.claude'',
     glob_result = Some [\<lparr>path = ''a.jsonl'', mtime = Some 1709250000000,
                            content = Some (log_line ''2024-02-29T22:30:00.000Z'' @ [10])\<rparr>],
     parse_other = (\<lambda>s. NaN), now_cache = 1709251199999, now_scan = 1709251199999, trace = []\<rparr>"


text \<open>
  A log file of four lines: an entry with token usage made at 22:30 UTC, an object
  without usage, an empty line, and an entry made at 23:00 UTC.  The content begins
  with a byte order mark and ends with a line feed and a space.  And a log file of one
  line, which begins with a byte order mark.
\<close>

definition example_log :: jsstring where
  "example_log =
     [65279] @ log_line ''2024-02-29T22:30:00.000Z'' @ [10] @ str ''{}'' @ [10, 10] @
     log_line ''2024-02-29T23:00:00.000Z'' @ [10, 32]"

definition bom_log :: jsstring where
  "bom_log = 65279 # log_line ''2024-02-29T22:30:00.000Z''"


text \<open>The same world six hours after the entry: the activity is stale.\<close>

definition w_stale :: world where
  "w_stale = w_log\<lparr>now_scan := 1709267400000\<rparr>"



section \<open>Evaluation\<close>

lemmas json_defs = JSON_parse_def json_ws_def value_start_def is_digit_def after_value_def
  close_array_def close_object_def string_done_def escape_char_def hexval_def


lemmas date_defs = new_Date_string_def Date_parse_def iso_utc_parse_def iso_fields_def
  digits_val_def DaysInMonth_def month_start_def InLeapYear_def MakeDate_def MakeDay_def
  is_digit_def MakeTime_def DayFromYear_def msPerDay_def msPerHour_def msPerMinute_def
  msPerSecond_def maxTime_def







section \<open>The block cache\<close>







section \<open>The walk over the files\<close>




lemma sorted_filesWithStats:
  "sorted_wrt (\<ge>) (map snd (sort_key (\<lambda>(f, mt). - mt) (stats :: (logfile \<times> int) list)))"
proof -
  have "sorted (map (\<lambda>(f, mt). - mt) (sort_key (\<lambda>(f, mt). - mt) stats))"
    by (rule sorted_sort_key)
  then show ?thesis
    by (simp add: sorted_map sorted_wrt_map case_prod_beta)
qed



section \<open>Flooring to the hour\<close>


lemma hour_floor: "MakeDate (Day t) (MakeTime (HourFromTime t) 0 0 0) = t - t mod 3600000"
proof -
  define q where "q = t div 3600000"
  define a where "a = q div 24"
  define b where "b = q mod 24"
  have d: "t div 86400000 = a"
  proof -
    have "t div (3600000 * 24) = t div 3600000 div 24"
      by (rule zdiv_zmult2_eq) simp
    then show ?thesis by (simp add: a_def q_def)
  qed
  have q: "q = 24 * a + b"
    by (simp add: a_def b_def)
  have "a * 86400000 + b * 3600000 = 3600000 * q"
    unfolding q by simp
  also have "\<dots> = t - t mod 3600000"
    by (simp add: q_def minus_mod_eq_mult_div)
  finally show ?thesis
    by (simp add: MakeDate_def Day_def MakeTime_def HourFromTime_def msPerDay_def msPerHour_def d
        q_def [symmetric] b_def [symmetric])
qed

lemma hour_floor_range:
  assumes "\<bar>t\<bar> \<le> maxTime"
  shows "\<bar>t - t mod 3600000\<bar> \<le> maxTime"
proof -
  have up: "t - t mod 3600000 \<le> t"
    by simp
  have "(- maxTime) div 3600000 \<le> t div 3600000"
    using assms by (intro zdiv_mono1) auto
  then have "- 2400000000 \<le> t div 3600000"
    by (simp add: maxTime_def)
  then have "- maxTime \<le> 3600000 * (t div 3600000)"
    by (simp add: maxTime_def)
  then have "- maxTime \<le> t - t mod 3600000"
    by (simp add: minus_mod_eq_mult_div)
  then show ?thesis
    using up assms by linarith
qed

lemma floorToHour_Num:
  "\<bar>t\<bar> \<le> maxTime \<Longrightarrow> floorToHour (Date (Num t)) = Date (Num (t - t mod 3600000))"
  using hour_floor_range [of t]
  by (simp add: floorToHour_def setUTCMinutes_def hour_floor)

lemma floored_fields:
  assumes "s mod 3600000 = 0"
  shows "MinFromTime s = 0" and "SecFromTime s = 0" and "msFromTime s = 0"
proof -
  from assms have "3600000 dvd s"
    by (simp add: dvd_eq_mod_eq_0)
  then obtain k where k: "s = 3600000 * k" ..
  have m: "s = 60000 * (60 * k)" and c: "s = 1000 * (3600 * k)"
    by (simp_all add: k)
  have "s div 60000 = 60 * k"
    by (subst m) simp
  moreover have "s div 1000 = 3600 * k"
    by (subst c) simp
  ultimately show "MinFromTime s = 0" and "SecFromTime s = 0"
    by (simp_all add: MinFromTime_def SecFromTime_def msPerMinute_def msPerSecond_def)
  show "msFromTime s = 0"
    by (subst c) (simp add: msFromTime_def msPerSecond_def)
qed

section \<open>Invariants of the locator\<close>


lemma TimeClip_Num: "TimeClip x = Num t \<Longrightarrow> x = Num t \<and> \<bar>t\<bar> \<le> maxTime"
  by (cases x) (auto split: if_splits)

lemma line_body_in_range:
  assumes "line_body other line = Returns (Some t)"
  shows "\<bar>t\<bar> \<le> maxTime"
proof -
  from assms obtain ts where "getTime (new_Date_string other ts) = Num t"
    by (auto simp: line_body_def bind_def Let_def
        split: res.splits option.splits json.splits if_splits number.splits)
  then show ?thesis
    by (auto simp: new_Date_string_def dest: TimeClip_Num)
qed

lemma line_timestamps_in_range: "t \<in> set (line_timestamps other line) \<Longrightarrow> \<bar>t\<bar> \<le> maxTime"
  by (cases "line_body other line")
     (auto simp: line_timestamps_def try_catch_def dest: line_body_in_range split: option.splits)

lemma getAllTimestampsFromFile_in_range:
  "t \<in> set (getAllTimestampsFromFile other c) \<Longrightarrow> \<bar>t\<bar> \<le> maxTime"
  by (cases c)
     (auto simp: getAllTimestampsFromFile_def try_catch_def bind_def
        dest: line_timestamps_in_range)

lemma observed_in_range: "t \<in> observed other files \<Longrightarrow> \<bar>t\<bar> \<le> maxTime"
  by (auto simp: observed_def dest: getAllTimestampsFromFile_in_range)

lemma collect_timestamps_observed:
  "set (fst (collect_timestamps other cutoff files)) \<subseteq> observed other files"
  by (induction files) (auto simp: observed_def split: prod.splits)

lemma horizon_pass_timestamps:
  assumes "horizon_pass other now dur files h s = (c, evs)"
    and "c = Next s' \<or> c = Break s'"
  shows "set (timestamps s') \<subseteq> observed other files"
proof -
  define cutoff where "cutoff = getTime (cutoffTime now h)"
  obtain collected evs0 where col: "collect_timestamps other cutoff files = (collected, evs0)"
    by (cases "collect_timestamps other cutoff files")
  have sub: "set (sort_key uminus collected) \<subseteq> observed other files"
    using collect_timestamps_observed [of other cutoff files] col by simp
  show ?thesis
  proof (cases "sort_key uminus collected")
    case Nil
    then show ?thesis
      using assms col by (auto simp: horizon_pass_def cutoff_def [symmetric])
  next
    case (Cons newest older)
    then have "set (newest # older) \<subseteq> observed other files"
      using sub by simp
    then show ?thesis
      using assms col Cons
      by (auto simp: horizon_pass_def cutoff_def [symmetric] Let_def
          split: if_splits prod.splits)
  qed
qed

lemma lookback_timestamps:
  assumes "lookback other now dur files chunks s = (Some s', evs)"
    and "set (timestamps s) \<subseteq> observed other files"
  shows "set (timestamps s') \<subseteq> observed other files"
  using assms
proof (induction chunks arbitrary: s evs)
  case Nil
  then show ?case by simp
next
  case (Cons h chunks)
  obtain c evs0 where hp: "horizon_pass other now dur files h s = (c, evs0)"
    by (cases "horizon_pass other now dur files h s")
  show ?case
  proof (cases c)
    case (Next s1)
    have s1: "set (timestamps s1) \<subseteq> observed other files"
      using horizon_pass_timestamps [OF hp] Next by simp
    obtain r evs1 where lb: "lookback other now dur files chunks s1 = (r, evs1)"
      by (cases "lookback other now dur files chunks s1")
    with Cons.prems hp Next have "r = Some s'" by simp
    with Cons.IH [OF _ s1] lb show ?thesis by simp
  next
    case (Break s1)
    with Cons.prems hp have "s1 = s'" by simp
    with horizon_pass_timestamps [OF hp] Break show ?thesis by simp
  next
    case ReturnNull
    with Cons.prems hp show ?thesis by simp
  qed
qed

lemma build_blocks_member:
  "b \<in> set (build_blocks dur cws ts cur) \<Longrightarrow>
   \<exists>t \<in> set ts. block_start b = floorToHour (Date (Num t)) \<and>
     block_end b = new_Date (num_add (getTime (floorToHour (Date (Num t)))) (Num dur))"
  by (induction ts arbitrary: cur) (auto simp: Let_def split: if_splits)

lemma find_current_Some:
  "find_current now ts mostRecent bs = Some m \<Longrightarrow>
   \<exists>b \<in> set bs. contains_time b now \<and> hasActivity ts b \<and>
     m = \<lparr>startTime = block_start b, lastActivity = Date (Num mostRecent)\<rparr>"
  by (induction bs) (auto split: if_splits)


section \<open>The example log file\<close>

lemma log_line_timestamps:
  "line_timestamps (\<lambda>s. NaN) (log_line ''2024-02-29T22:30:00.000Z'') = [1709245800000]"
  by (simp add: log_line_def str_def line_timestamps_def line_body_def json_defs bind_def try_catch_def date_defs)

lemma log_file_timestamps:
  "getAllTimestampsFromFile (\<lambda>s. NaN) (Some (log_line ''2024-02-29T22:30:00.000Z'' @ [10])) = [1709245800000]"
proof -
  have "file_lines (log_line ''2024-02-29T22:30:00.000Z'' @ [10]) = [log_line ''2024-02-29T22:30:00.000Z'']"
    by (simp add: file_lines_def trim_def js_space_def log_line_def str_def)
  then show ?thesis
    by (simp add: getAllTimestampsFromFile_def bind_def try_catch_def log_line_timestamps)
qed

lemma locate_w_log:
  "fst (findMostRecentBlockStartTime ''/home/u/.claude'' 5 w_log) =
     Returns (Some \<lparr>startTime = Date (Num 1709244000000), lastActivity = Date (Num 1709245800000)\<rparr>)"
  by (simp add: findMostRecentBlockStartTime_def w_log_def stat_all_def Let_def
      horizon_pass_def cutoffTime_def new_Date_def maxTime_def log_file_timestamps
      lookbackChunks_def initial_scan_def sessionDurationMs_def select_block_def
      floorToHour_def setUTCMinutes_def MakeDate_def MakeTime_def Day_def HourFromTime_def
      msPerDay_def msPerHour_def contains_time_def hasActivity_def num_ge_def num_gt_def emit_def)

section \<open>The start of the window\<close>

lemma findMostRecent_Some:
  assumes "fst (findMostRecentBlockStartTime rootDir d w) = Returns (Some m)"
  obtains files stats s evs where
    "glob_result w = Some files" and "stat_all files = Returns stats" and
    "lookback (parse_other w) (now_scan w) (sessionDurationMs d)
       (sort_key (\<lambda>(f, mt). - mt) stats) lookbackChunks initial_scan = (Some s, evs)" and
    "select_block (now_scan w) (sessionDurationMs d) s = Some m"
  using assms unfolding findMostRecentBlockStartTime_def
  by (auto simp: Let_def split: option.splits if_splits res.splits prod.splits)

lemma observed_stats:
  assumes "glob_result w = Some files" and "stat_all files = Returns stats"
  shows "observed (parse_other w) (sort_key (\<lambda>(f, mt). - mt) stats) = world_timestamps w"
proof -
  have "stats = map (\<lambda>f. (f, the (mtime f))) files"
    using assms(2) by (auto simp: stat_all_def split: if_splits)
  then show ?thesis
    using assms(1) by (auto simp: observed_def world_timestamps_def)
qed

lemma select_block_Some:
  assumes "select_block now dur s = Some m"
  obtains t where "t \<in> set (timestamps s)" and "startTime m = floorToHour (Date (Num t))"
proof -
  from assms obtain mr cws where
    fc: "find_current now (timestamps s) mr
           (build_blocks dur cws (sort_key (\<lambda>t. t) (timestamps s)) None) = Some m"
    by (auto simp: select_block_def split: option.splits)
  from find_current_Some [OF fc] obtain b where
    b: "b \<in> set (build_blocks dur cws (sort_key (\<lambda>t. t) (timestamps s)) None)"
    and m: "m = \<lparr>startTime = block_start b, lastActivity = Date (Num mr)\<rparr>"
    by blast
  from build_blocks_member [OF b] obtain t where
    "t \<in> set (timestamps s)" "block_start b = floorToHour (Date (Num t))"
    by auto
  with m that show ?thesis by simp
qed

lemma locator_start:
  assumes "fst (findMostRecentBlockStartTime rootDir d w) = Returns (Some m)"
  obtains t where "t \<in> world_timestamps w" and "\<bar>t\<bar> \<le> maxTime"
    and "startTime m = Date (Num (t - t mod 3600000))"
proof -
  from assms obtain files stats s evs where
    g: "glob_result w = Some files" and st: "stat_all files = Returns stats" and
    lb: "lookback (parse_other w) (now_scan w) (sessionDurationMs d)
           (sort_key (\<lambda>(f, mt). - mt) stats) lookbackChunks initial_scan = (Some s, evs)" and
    sel: "select_block (now_scan w) (sessionDurationMs d) s = Some m"
    by (rule findMostRecent_Some)
  have "set (timestamps s) \<subseteq> observed (parse_other w) (sort_key (\<lambda>(f, mt). - mt) stats)"
    by (rule lookback_timestamps [OF lb]) (simp add: initial_scan_def)
  then have sub: "set (timestamps s) \<subseteq> world_timestamps w"
    by (simp add: observed_stats [OF g st])
  from sel obtain t where t: "t \<in> set (timestamps s)"
    and fl: "startTime m = floorToHour (Date (Num t))"
    by (rule select_block_Some)
  have tw: "t \<in> world_timestamps w"
    using sub t by blast
  then have "t \<in> observed (parse_other w) (sort_key (\<lambda>(f, mt). - mt) stats)"
    by (simp add: observed_stats [OF g st])
  then have range: "\<bar>t\<bar> \<le> maxTime"
    by (rule observed_in_range)
  have "startTime m = Date (Num (t - t mod 3600000))"
    using fl range by (simp add: floorToHour_Num)
  with tw range that show ?thesis by blast
qed

text \<open>
  C7.  The start time of every window the locator returns is floored to the hour in
  UTC: it is a valid Date whose UTC minutes, seconds and milliseconds are zero, and it
  is not after and less than one hour before some observed timestamp.
\<close>

theorem locator_startTime_floored:
  assumes "fst (findMostRecentBlockStartTime rootDir d w) = Returns (Some m)"
  shows "\<exists>s. startTime m = Date (Num s) \<and>
           getUTCMinutes (startTime m) = Num 0 \<and>
           getUTCSeconds (startTime m) = Num 0 \<and>
           getUTCMilliseconds (startTime m) = Num 0 \<and>
           (\<exists>t \<in> world_timestamps w. s \<le> t \<and> t - s < 60 * 60 * 1000)"
proof -
  from assms obtain t where tw: "t \<in> world_timestamps w"
    and fl: "startTime m = Date (Num (t - t mod 3600000))"
    by (rule locator_start)
  define s0 where "s0 = t - t mod 3600000"
  have start: "startTime m = Date (Num s0)"
    using fl by (simp add: s0_def)
  have z: "s0 mod 3600000 = 0"
    by (simp add: s0_def)
  have near: "s0 \<le> t \<and> t - s0 < 60 * 60 * 1000"
    by (simp add: s0_def)
  show ?thesis
    using start floored_fields [OF z] tw near
    by (auto simp: getUTCMinutes_def getUTCSeconds_def getUTCMilliseconds_def)
qed

theorem locator_startTime_floored_witness:
  "fst (findMostRecentBlockStartTime ''/home/u/.claude'' 5 w_log) =
     Returns (Some \<lparr>startTime = Date (Num 1709244000000),
                      lastActivity = Date (Num 1709245800000)\<rparr>) \<and>
   (\<exists>s. Date (Num 1709244000000) = Date (Num s) \<and>
      getUTCMinutes (Date (Num 1709244000000)) = Num 0 \<and>
      getUTCSeconds (Date (Num 1709244000000)) = Num 0 \<and>
      getUTCMilliseconds (Date (Num 1709244000000)) = Num 0 \<and>
      (\<exists>t \<in> world_timestamps w_log. s \<le> t \<and> t - s < 60 * 60 * 1000))"
  using locate_w_log locator_startTime_floored [OF locate_w_log] by simp

section \<open>The windows built from the timestamps\<close>









section \<open>Stale activity\<close>

lemma sort_desc_hd:
  assumes "sort_key uminus (xs :: int list) = newest # older"
  shows "newest = Max (set xs)"
proof -
  have s: "sorted (map uminus (newest # older))"
    using sorted_sort_key [of uminus xs] assms by simp
  have set: "set xs = set (newest # older)"
    using set_sort [of uminus xs] assms by simp
  have "\<forall>y \<in> set older. y \<le> newest"
    using s by auto
  then have "\<forall>y \<in> set xs. y \<le> newest"
    using set by auto
  moreover have "newest \<in> set xs"
    using set by simp
  ultimately show ?thesis
    by (intro Max_eqI [symmetric]) auto
qed

lemma sort_key_Nil_iff: "sort_key f xs = [] \<longleftrightarrow> xs = []"
  by (metis length_sort length_0_conv)

lemma horizon_pass_empty:
  assumes "collect_timestamps other (getTime (cutoffTime now h)) files = ([], evs)"
  shows "horizon_pass other now dur files h s = (Next (s\<lparr>timestamps := []\<rparr>), evs)"
  using assms by (simp add: horizon_pass_def)

lemma horizon_pass_stale:
  assumes col: "collect_timestamps other (getTime (cutoffTime now h)) files = (ts, evs)"
    and ne: "ts \<noteq> []" and fresh: "mostRecentTimestamp s = None"
    and stale: "now - Max (set ts) > dur"
  shows "horizon_pass other now dur files h s = (ReturnNull, evs)"
proof -
  obtain newest older where so: "sort_key uminus ts = newest # older"
    using ne by (cases "sort_key uminus ts") (auto simp: sort_key_Nil_iff)
  have "newest = Max (set ts)"
    using so by (rule sort_desc_hd)
  then show ?thesis
    using col so fresh stale by (simp add: horizon_pass_def)
qed

lemma lookback_stale:
  assumes "first_timestamps other now files chunks = Some (ts, evs)"
    and "mostRecentTimestamp s = None"
    and "now - Max (set ts) > dur"
  shows "lookback other now dur files chunks s = (None, evs)"
  using assms
proof (induction chunks arbitrary: s evs)
  case Nil
  then show ?case by simp
next
  case (Cons h hs)
  obtain ts0 evs0 where col: "collect_timestamps other (getTime (cutoffTime now h)) files = (ts0, evs0)"
    by (cases "collect_timestamps other (getTime (cutoffTime now h)) files")
  show ?case
  proof (cases "ts0 = []")
    case True
    with Cons.prems(1) col obtain evs1 where
      f: "first_timestamps other now files hs = Some (ts, evs1)" and e: "evs = evs0 @ evs1"
      by auto
    have "lookback other now dur files hs (s\<lparr>timestamps := []\<rparr>) = (None, evs1)"
      using Cons.IH [OF f _ Cons.prems(3)] Cons.prems(2) by simp
    then show ?thesis
      using horizon_pass_empty [of other now h files evs0 dur s] col True e by simp
  next
    case False
    with Cons.prems(1) col have "ts = ts0" "evs = evs0" by auto
    with horizon_pass_stale [OF col False Cons.prems(2)] Cons.prems(3)
    show ?thesis by simp
  qed
qed

lemma locator_stale:
  assumes g: "glob_result w = Some files" and ne: "files \<noteq> []"
    and st: "stat_all files = Returns stats"
    and ft: "first_timestamps (parse_other w) (now_scan w)
               (sort_key (\<lambda>(f, mt). - mt) stats) lookbackChunks = Some (ts, evs)"
    and stale: "now_scan w - Max (set ts) > sessionDurationMs d"
  shows "findMostRecentBlockStartTime rootDir d w =
           (Returns None, emit ([Glob] @ map (\<lambda>f. Stat (path f)) files @ evs) w)"
proof -
  have "lookback (parse_other w) (now_scan w) (sessionDurationMs d)
          (sort_key (\<lambda>(f, mt). - mt) stats) lookbackChunks initial_scan = (None, evs)"
    by (rule lookback_stale [OF ft _ stale]) (simp add: initial_scan_def)
  then show ?thesis
    using g ne st by (simp add: findMostRecentBlockStartTime_def Let_def emit_def)
qed

lemma lookback_all_empty:
  assumes "first_timestamps other now files chunks = None"
    and "mostRecentTimestamp s = None"
  shows "\<exists>s' evs. lookback other now dur files chunks s = (Some s', evs) \<and>
           mostRecentTimestamp s' = None"
  using assms
proof (induction chunks arbitrary: s)
  case Nil
  then show ?case by simp
next
  case (Cons h hs)
  obtain ts0 evs0 where col: "collect_timestamps other (getTime (cutoffTime now h)) files = (ts0, evs0)"
    by (cases "collect_timestamps other (getTime (cutoffTime now h)) files")
  with Cons.prems(1) have e: "ts0 = []" and f: "first_timestamps other now files hs = None"
    by (auto split: if_splits)
  from Cons.IH [OF f, of "s\<lparr>timestamps := []\<rparr>"] Cons.prems(2)
  obtain s' evs where "lookback other now dur files hs (s\<lparr>timestamps := []\<rparr>) = (Some s', evs)"
    "mostRecentTimestamp s' = None" by auto
  then show ?case
    using horizon_pass_empty [of other now h files evs0 dur s] col e by simp
qed

lemma first_timestamps_observed:
  "first_timestamps other now files chunks = Some (ts, evs) \<Longrightarrow>
   ts \<noteq> [] \<and> set ts \<subseteq> observed other files"
proof (induction chunks arbitrary: evs)
  case Nil
  then show ?case by simp
next
  case (Cons h hs)
  obtain ts0 evs0 where col: "collect_timestamps other (getTime (cutoffTime now h)) files = (ts0, evs0)"
    by (cases "collect_timestamps other (getTime (cutoffTime now h)) files")
  show ?case
  proof (cases "ts0 = []")
    case True
    with Cons.prems col obtain evs1 where "first_timestamps other now files hs = Some (ts, evs1)"
      by auto
    then show ?thesis by (rule Cons.IH)
  next
    case False
    with Cons.prems col have "ts = ts0" by auto
    with False collect_timestamps_observed [of other "getTime (cutoffTime now h)" files] col
    show ?thesis by simp
  qed
qed

lemma single_stale_file:
  assumes g: "glob_result w = Some [f]"
    and one: "getAllTimestampsFromFile (parse_other w) (content f) = [t]"
    and stale: "now_scan w - t > sessionDurationMs d"
  shows "try_catch (fst (findMostRecentBlockStartTime rootDir d w)) None = None"
proof (cases "mtime f")
  case None
  then have "stat_all [f] = Throws"
    by (simp add: stat_all_def)
  then show ?thesis
    using g by (simp add: findMostRecentBlockStartTime_def Let_def try_catch_def)
next
  case (Some mt)
  then have st: "stat_all [f] = Returns [(f, mt)]"
    by (simp add: stat_all_def)
  have so: "sort_key (\<lambda>(f, mt). - mt) [(f, mt)] = [(f, mt)]"
    by simp
  have obs: "observed (parse_other w) [(f, mt)] = {t}"
    by (simp add: observed_def one)
  show ?thesis
  proof (cases "first_timestamps (parse_other w) (now_scan w) [(f, mt)] lookbackChunks")
    case None
    from lookback_all_empty [OF None, of initial_scan "sessionDurationMs d"]
    obtain s' evs where
      lb: "lookback (parse_other w) (now_scan w) (sessionDurationMs d) [(f, mt)]
             lookbackChunks initial_scan = (Some s', evs)"
      and mr: "mostRecentTimestamp s' = None"
      by (auto simp: initial_scan_def)
    have "select_block (now_scan w) (sessionDurationMs d) s' = None"
      using mr by (simp add: select_block_def)
    then show ?thesis
      using g st lb by (simp add: findMostRecentBlockStartTime_def Let_def try_catch_def)
  next
    case (Some r)
    obtain ts evs where r: "r = (ts, evs)" by (cases r)
    from first_timestamps_observed [OF Some [unfolded r]] obs
    have "ts \<noteq> []" "set ts \<subseteq> {t}" by simp_all
    then have "set ts = {t}" by (cases ts) auto
    then have "Max (set ts) = t" by simp
    with stale have stale': "now_scan w - Max (set ts) > sessionDurationMs d" by simp
    have "findMostRecentBlockStartTime rootDir d w =
            (Returns None, emit ([Glob] @ map (\<lambda>f. Stat (path f)) [f] @ evs) w)"
      by (rule locator_stale [OF g _ st _ stale']) (simp_all add: so Some r)
    then show ?thesis
      by (simp add: try_catch_def)
  qed
qed

text \<open>
  C3.  When the most recent timestamp the locator finds (the newest of the first
  lookback chunk that yields any) is older than the window duration before now, the
  locator returns no window at once: after the search for files and their
  modification times it has read only the files of the passes up to that chunk.  In
  particular a single log file whose only timestamp is older than the window duration
  yields no window.
\<close>

theorem stale_activity_no_window:
  "(glob_result w = Some files \<and> files \<noteq> [] \<and> stat_all files = Returns stats \<and>
    first_timestamps (parse_other w) (now_scan w)
      (sort_key (\<lambda>(f, mt). - mt) stats) lookbackChunks = Some (ts, evs) \<and>
    now_scan w - Max (set ts) > sessionDurationMs d \<longrightarrow>
    findMostRecentBlockStartTime rootDir d w =
      (Returns None, emit ([Glob] @ map (\<lambda>f. Stat (path f)) files @ evs) w)) \<and>
   (glob_result w = Some [f] \<and>
    getAllTimestampsFromFile (parse_other w) (content f) = [t] \<and>
    now_scan w - t > sessionDurationMs d \<longrightarrow>
    try_catch (fst (findMostRecentBlockStartTime rootDir d w)) None = None)"
  using locator_stale [of w files stats ts evs d rootDir] single_stale_file [of w f t d rootDir]
  by blast

lemma first_w_stale:
  "first_timestamps (\<lambda>s. NaN) 1709267400000
     [(\<lparr>path = ''a.jsonl'', mtime = Some 1709250000000,
            content = Some (log_line ''2024-02-29T22:30:00.000Z'' @ [10])\<rparr>, 1709250000000)]
     lookbackChunks = Some ([1709245800000], [ReadLog ''a.jsonl''])"
  by (simp add: lookbackChunks_def cutoffTime_def new_Date_def maxTime_def log_file_timestamps)

theorem stale_activity_no_window_witness:
  "glob_result w_stale = Some [\<lparr>path = ''a.jsonl'', mtime = Some 1709250000000,
            content = Some (log_line ''2024-02-29T22:30:00.000Z'' @ [10])\<rparr>] \<and>
   getAllTimestampsFromFile (parse_other w_stale)
     (Some (log_line ''2024-02-29T22:30:00.000Z'' @ [10])) = [1709245800000] \<and>
   now_scan w_stale - 1709245800000 > sessionDurationMs 5 \<and>
   fst (findMostRecentBlockStartTime ''/home/u/.claude'' 5 w_stale) = Returns None \<and>
   trace (snd (findMostRecentBlockStartTime ''/home/u/.claude'' 5 w_stale)) =
     [Glob, Stat ''a.jsonl'', ReadLog ''a.jsonl'']"
proof -
  let ?f = "\<lparr>path = ''a.jsonl'', mtime = Some 1709250000000,
            content = Some (log_line ''2024-02-29T22:30:00.000Z'' @ [10])\<rparr>"
  have g: "glob_result w_stale = Some [?f]"
    by (simp add: w_stale_def w_log_def)
  have st: "stat_all [?f] = Returns [(?f, 1709250000000)]"
    by (simp add: stat_all_def)
  have one: "getAllTimestampsFromFile (parse_other w_stale)
     (Some (log_line ''2024-02-29T22:30:00.000Z'' @ [10])) = [1709245800000]"
    using log_file_timestamps by (simp add: w_stale_def w_log_def)
  have ft: "first_timestamps (parse_other w_stale) (now_scan w_stale)
      (sort_key (\<lambda>(f, mt). - mt) [(?f, 1709250000000)]) lookbackChunks =
        Some ([1709245800000], [ReadLog ''a.jsonl''])"
    using first_w_stale by (simp add: w_stale_def w_log_def)
  have stale: "now_scan w_stale - Max (set [1709245800000]) > sessionDurationMs 5"
    by (simp add: w_stale_def w_log_def sessionDurationMs_def)
  have stale': "now_scan w_stale - 1709245800000 > sessionDurationMs 5"
    by (simp add: w_stale_def w_log_def sessionDurationMs_def)
  have ne: "[?f] \<noteq> []" by simp
  from stale_activity_no_window [of w_stale "[?f]" "[(?f, 1709250000000)]" "[1709245800000]"
      "[ReadLog ''a.jsonl'']" 5 "''/home/u/.claude''"] g ne st ft stale
  have r: "findMostRecentBlockStartTime ''/home/u/.claude'' 5 w_stale =
      (Returns None, emit ([Glob] @ map (\<lambda>f. Stat (path f)) [?f] @ [ReadLog ''a.jsonl'']) w_stale)"
    by blast
  have tr: "trace (snd (findMostRecentBlockStartTime ''/home/u/.claude'' 5 w_stale)) =
     [Glob, Stat ''a.jsonl'', ReadLog ''a.jsonl'']"
    unfolding r by (simp add: emit_def w_stale_def w_log_def)
  have res: "fst (findMostRecentBlockStartTime ''/home/u/.claude'' 5 w_stale) = Returns None"
    unfolding r by simp
  from g one stale' res tr show ?thesis by (intro conjI)
qed

section \<open>The lines of a log file\<close>

lemma typeof_number_numeric: "typeof_number (map_of props k) = numeric_field props k"
  by (cases "map_of props k" rule: typeof_number.cases) (auto simp: numeric_field_def)

lemma not_object_member:
  assumes "\<forall>uprops. u \<noteq> Some (JObj uprops)" and "truthy u"
  shows "get_member u k = Returns None"
proof (cases u)
  case None
  with assms show ?thesis by simp
next
  case (Some v)
  with assms show ?thesis by (cases v) auto
qed

lemma usage_of_line:
  "(j = JNull \<longrightarrow> bind (get_prop j (str ''message'')) (\<lambda>m. get_prop_opt m (str ''usage'')) = Throws) \<and>
   (j \<noteq> JNull \<longrightarrow>
      (\<exists>u. bind (get_prop j (str ''message'')) (\<lambda>m. get_prop_opt m (str ''usage'')) = Returns u \<and>
           (case usage_object j of
              Some uprops \<Rightarrow> u = Some (JObj uprops)
            | None \<Rightarrow> (\<forall>uprops. u \<noteq> Some (JObj uprops)))))"
proof (cases j)
  case (JObj props)
  show ?thesis
  proof (cases "map_of props (str ''message'')")
    case None
    with JObj show ?thesis by (simp add: bind_def usage_object_def)
  next
    case (Some m)
    show ?thesis
    proof (cases m)
      case (JObj mprops)
      show ?thesis
      proof (cases "map_of mprops (str ''usage'')")
        case None
        with \<open>j = JObj props\<close> Some JObj show ?thesis
          by (simp add: bind_def usage_object_def)
      next
        case (Some u)
        with \<open>j = JObj props\<close> \<open>map_of props (str ''message'') = Some m\<close> JObj show ?thesis
          by (cases u) (simp_all add: bind_def usage_object_def)
      qed
    qed (use \<open>j = JObj props\<close> Some in \<open>simp_all add: bind_def usage_object_def\<close>)
  qed
qed (simp_all add: bind_def usage_object_def)

lemma line_body_after_usage:
  "line_body other line =
     bind (JSON_parse line) (\<lambda>json.
     bind (bind (get_prop json (str ''message'')) (\<lambda>m. get_prop_opt m (str ''usage''))) (\<lambda>usage.
       if \<not> truthy usage then Returns None
       else
         bind (get_member usage (str ''input_tokens'')) (\<lambda>input_tokens.
         bind (get_member usage (str ''output_tokens'')) (\<lambda>output_tokens.
           if \<not> typeof_number input_tokens \<or> \<not> typeof_number output_tokens then Returns None
           else
             bind (get_prop json (str ''isSidechain'')) (\<lambda>isSidechain.
               if isSidechain = Some (JBool True) then Returns None
               else
                 bind (get_prop json (str ''timestamp'')) (\<lambda>timestamp.
                   (case timestamp of
                      Some (JStr ts) \<Rightarrow>
                        (case getTime (new_Date_string other ts) of
                           Num t \<Rightarrow> Returns (Some t)
                         | NaN \<Rightarrow> Returns None)
                    | _ \<Rightarrow> Returns None)))))))"
  by (simp add: line_body_def bind_def Let_def split: res.splits)

lemma line_contributes:
  "try_catch (line_body other line) None = contributes other line"
proof (cases "JSON_parse line")
  case Throws
  then show ?thesis
    by (simp add: line_body_def bind_def try_catch_def contributes_def)
next
  case (Returns j)
  show ?thesis
  proof (cases "j = JNull")
    case True
    with Returns usage_of_line [of j] show ?thesis
      by (simp add: line_body_after_usage bind_def try_catch_def contributes_def usage_object_def)
  next
    case False
    with usage_of_line [of j] obtain u where
      u: "bind (get_prop j (str ''message'')) (\<lambda>m. get_prop_opt m (str ''usage'')) = Returns u"
      and uo: "case usage_object j of Some uprops \<Rightarrow> u = Some (JObj uprops)
               | None \<Rightarrow> (\<forall>uprops. u \<noteq> Some (JObj uprops))"
      by blast
    show ?thesis
    proof (cases "usage_object j")
      case None
      with uo have no: "\<forall>uprops. u \<noteq> Some (JObj uprops)" by simp
      have "try_catch (line_body other line) None = None"
      proof (cases "truthy u")
        case True
        from not_object_member [OF no True]
        show ?thesis
          using Returns u True
          by (simp add: line_body_after_usage bind_def try_catch_def)
      next
        case False
        then show ?thesis
          using Returns u by (simp add: line_body_after_usage bind_def try_catch_def)
      qed
      with Returns None show ?thesis
        by (simp add: contributes_def)
    next
      case (Some uprops)
      with uo have us: "u = Some (JObj uprops)" by simp
      from Some obtain props where j: "j = JObj props"
        by (cases j) (simp_all add: usage_object_def)
      show ?thesis
        using Returns u us Some j
        by (simp add: line_body_after_usage bind_def try_catch_def contributes_def
            typeof_number_numeric flagged_sidechain_def string_timestamp_def
            split: option.splits json.splits number.splits)
    qed
  qed
qed

lemma line_timestamps_contributes:
  "line_timestamps other = (\<lambda>l. case contributes other l of None \<Rightarrow> [] | Some t \<Rightarrow> [t])"
  by (rule ext) (simp add: line_timestamps_def line_contributes)

lemma js_space_white: "js_space c = white c"
  by (auto simp: js_space_def white_def white_space_code_points_def
      line_terminator_code_points_def) arith

lemma trim_framed:
  assumes a: "list_all js_space a" and b: "list_all js_space b"
    and s: "s = [] \<or> \<not> js_space (hd s) \<and> \<not> js_space (last s)"
  shows "trim (a @ s @ b) = s"
proof (cases "s = []")
  case True
  from a b have "list_all js_space (a @ b)" by simp
  then have d: "dropWhile js_space (a @ b) = []"
    unfolding dropWhile_eq_Nil_conv by (simp add: list_all_iff)
  have "trim (a @ b) = []"
    unfolding trim_def d by simp
  with True show ?thesis by simp
next
  case False
  with s have h: "\<not> js_space (hd s)" and l: "\<not> js_space (last s)" by simp_all
  from a have "dropWhile js_space (a @ s @ b) = dropWhile js_space (s @ b)"
    by (intro dropWhile_append2) (simp add: list_all_iff)
  also from False h have "\<dots> = s @ b"
    by (cases s) simp_all
  finally have d: "dropWhile js_space (a @ s @ b) = s @ b" .
  from b have "dropWhile js_space (rev b @ rev s) = dropWhile js_space (rev s)"
    by (intro dropWhile_append2) (simp add: list_all_iff)
  also from False l have "\<dots> = rev s"
    by (cases "rev s") (simp_all add: last_rev [symmetric] del: last_rev)
  finally show ?thesis
    by (simp add: trim_def d)
qed

lemma split_lines_line: "10 \<notin> set l \<Longrightarrow> split_lines l = [l]"
  by (induction l) auto

lemma split_lines_append:
  "10 \<notin> set l \<Longrightarrow> split_lines (l @ 10 # s) = l # split_lines s"
  by (induction l) auto

lemma split_lines_join:
  "ls \<noteq> [] \<Longrightarrow> list_all (\<lambda>l. 10 \<notin> set l) ls \<Longrightarrow> split_lines (join_lines ls) = ls"
  by (induction ls rule: join_lines.induct) (simp_all add: split_lines_line split_lines_append)

lemma split_lines_not_Nil: "split_lines s \<noteq> []"
  by (induction s) (auto split: list.splits)

lemma split_lines_no_lf: "list_all (\<lambda>l. 10 \<notin> set l) (split_lines s)"
  by (induction s) (auto split: list.splits)

lemma join_lines_Cons: "ls \<noteq> [] \<Longrightarrow> join_lines (l # ls) = l @ 10 # join_lines ls"
  by (cases ls) simp_all

lemma join_split_lines: "join_lines (split_lines s) = s"
proof (induction s)
  case Nil
  show ?case by simp
next
  case (Cons c cs)
  show ?case
  proof (cases "c = 10")
    case True
    with Cons split_lines_not_Nil [of cs] show ?thesis
      by (simp add: join_lines_Cons)
  next
    case False
    from split_lines_not_Nil [of cs] obtain l ls where sp: "split_lines cs = l # ls"
      by (cases "split_lines cs") auto
    with Cons False show ?thesis
      by (cases ls) simp_all
  qed
qed

lemma parse_empty: "JSON_parse [] = Throws"
  by (simp add: JSON_parse_def)

lemma contributes_empty: "contributes other [] = None"
  by (simp add: contributes_def parse_empty)

lemma map_filter_nonempty:
  "List.map_filter (contributes other) (filter (\<lambda>l. l \<noteq> []) ls) =
   List.map_filter (contributes other) ls"
  by (induction ls) (auto simp: List.map_filter_simps contributes_empty split: option.splits)

lemma concat_contributes:
  "concat (map (\<lambda>l. case contributes other l of None \<Rightarrow> [] | Some t \<Rightarrow> [t]) ls) =
   List.map_filter (contributes other) ls"
  by (induction ls) (auto simp: List.map_filter_simps split: option.splits)

lemma file_timestamps:
  "getAllTimestampsFromFile other (Some c) = List.map_filter (contributes other) (file_lines c)"
  by (simp add: getAllTimestampsFromFile_def bind_def try_catch_def line_timestamps_contributes
      concat_contributes)

lemma trimmed_lines_timestamps:
  assumes "trimmed_lines a ls b c"
  shows "getAllTimestampsFromFile other (Some c) = List.map_filter (contributes other) ls"
proof -
  from assms have c: "c = a @ join_lines ls @ b"
    and a: "list_all js_space a" and b: "list_all js_space b"
    and ne: "ls \<noteq> []" and lf: "list_all (\<lambda>l. 10 \<notin> set l) ls"
    and s: "join_lines ls = [] \<or>
            \<not> js_space (hd (join_lines ls)) \<and> \<not> js_space (last (join_lines ls))"
    by (simp_all add: trimmed_lines_def js_space_white [abs_def])
  from trim_framed [OF a b s] c have "trim c = join_lines ls" by simp
  then have "file_lines c = filter (\<lambda>l. length l > 0) ls"
    by (simp add: file_lines_def split_lines_join [OF ne lf])
  then show ?thesis
    by (simp add: file_timestamps map_filter_nonempty)
qed

lemma trim_decomposition:
  "\<exists>a b. c = a @ trim c @ b \<and> list_all js_space a \<and> list_all js_space b \<and>
         (trim c = [] \<or> \<not> js_space (hd (trim c)) \<and> \<not> js_space (last (trim c)))"
proof -
  define a where "a = takeWhile js_space c"
  define r where "r = dropWhile js_space c"
  define b where "b = rev (takeWhile js_space (rev r))"
  have t: "trim c = rev (dropWhile js_space (rev r))"
    by (simp add: trim_def r_def)
  have "rev (takeWhile js_space (rev r) @ dropWhile js_space (rev r)) = r"
    by (simp only: takeWhile_dropWhile_id rev_rev_ident)
  then have r: "r = trim c @ b"
    by (simp only: rev_append t b_def)
  have "c = a @ r"
    by (simp add: a_def r_def)
  with r have c: "c = a @ trim c @ b"
    by simp
  have wa: "list_all js_space a"
    by (simp add: a_def list_all_iff) (meson set_takeWhileD)
  have wb: "list_all js_space b"
    by (simp add: b_def list_all_iff) (meson set_takeWhileD)
  have ends: "trim c = [] \<or> \<not> js_space (hd (trim c)) \<and> \<not> js_space (last (trim c))"
  proof (cases "trim c = []")
    case False
    then have d: "dropWhile js_space (rev r) \<noteq> []"
      by (simp add: t)
    then have l: "\<not> js_space (hd (dropWhile js_space (rev r)))"
      by (rule hd_dropWhile)
    have "last (trim c) = hd (dropWhile js_space (rev r))"
      using d by (simp add: t last_rev)
    with l have la: "\<not> js_space (last (trim c))" by simp
    from False r have rne: "r \<noteq> []" by auto
    then have "\<not> js_space (hd r)"
      unfolding r_def by (rule hd_dropWhile)
    moreover from False r have "hd r = hd (trim c)" by (cases "trim c") auto
    ultimately show ?thesis using la by simp
  qed simp
  from c wa wb ends show ?thesis by blast
qed

lemma trimmed_lines_exist: "\<exists>a ls b. trimmed_lines a ls b c"
proof -
  from trim_decomposition [of c] obtain a b where
    c: "c = a @ trim c @ b" and a: "list_all js_space a" and b: "list_all js_space b"
    and s: "trim c = [] \<or> \<not> js_space (hd (trim c)) \<and> \<not> js_space (last (trim c))"
    by blast
  have "trimmed_lines a (split_lines (trim c)) b c"
    using c a b s
    by (simp add: trimmed_lines_def join_split_lines split_lines_not_Nil split_lines_no_lf
        js_space_white [abs_def])
  then show ?thesis by blast
qed

text \<open>
  C6 (as amended).  A line contributes a timestamp exactly when it parses as JSON, has
  a nested usage object with numeric input-token and output-token fields, is not
  flagged as a sidechain entry, and has a string timestamp that parses to a valid
  date; it then contributes that date.  For every log file, the lines are those of
  its content without the white space at its start and at its end: the content has
  such lines, and the file yields the dates of the lines that contribute, in the
  order of the lines.  Every other line contributes nothing, and so does a file that
  cannot be read; neither raises an error.
\<close>

theorem line_contributes_iff:
  "line_timestamps other line = (case contributes other line of None \<Rightarrow> [] | Some t \<Rightarrow> [t]) \<and>
   getAllTimestampsFromFile other None = [] \<and>
   (\<exists>a ls b. trimmed_lines a ls b c) \<and>
   (\<forall>a ls b. trimmed_lines a ls b c \<longrightarrow>
      getAllTimestampsFromFile other (Some c) = List.map_filter (contributes other) ls)"
  using trimmed_lines_exist [of c] trimmed_lines_timestamps [of _ _ _ c other]
  by (simp add: line_timestamps_contributes getAllTimestampsFromFile_def bind_def try_catch_def)

lemma log_line_timestamps_2300:
  "line_timestamps (\<lambda>s. NaN) (log_line ''2024-02-29T23:00:00.000Z'') = [1709247600000]"
  by (simp add: log_line_def str_def line_timestamps_def line_body_def json_defs bind_def try_catch_def date_defs)

lemma log_line_no_lf:
  "10 \<notin> set (log_line ''2024-02-29T22:30:00.000Z'')"
  "10 \<notin> set (log_line ''2024-02-29T23:00:00.000Z'')"
  by (simp_all add: log_line_def str_def)

lemma log_line_ends:
  "log_line ts \<noteq> []" "hd (log_line ts) = 123" "last (log_line ts) = 125"
  by (simp_all add: log_line_def str_def)

lemma contributes_braces: "contributes other (str ''{}'') = None"
  by (simp add: contributes_def str_def json_defs usage_object_def)

lemma contributes_examples:
  "contributes (\<lambda>s. NaN) (log_line ''2024-02-29T22:30:00.000Z'') = Some 1709245800000"
  "contributes (\<lambda>s. NaN) (log_line ''2024-02-29T23:00:00.000Z'') = Some 1709247600000"
  using log_line_timestamps log_line_timestamps_2300
  by (simp_all add: line_timestamps_contributes split: option.splits)

lemma example_log_lines:
  "trimmed_lines [65279]
     [log_line ''2024-02-29T22:30:00.000Z'', str ''{}'', [],
      log_line ''2024-02-29T23:00:00.000Z'']
     [10, 32] example_log"
  by (simp add: trimmed_lines_def example_log_def log_line_no_lf log_line_ends white_def
      white_space_code_points_def line_terminator_code_points_def str_def)

theorem line_contributes_iff_witness:
  "trimmed_lines [65279]
     [log_line ''2024-02-29T22:30:00.000Z'', str ''{}'', [],
      log_line ''2024-02-29T23:00:00.000Z'']
     [10, 32] example_log \<and>
   contributes (\<lambda>s. NaN) (log_line ''2024-02-29T22:30:00.000Z'') = Some 1709245800000 \<and>
   contributes (\<lambda>s. NaN) (str ''{}'') = None \<and>
   contributes (\<lambda>s. NaN) [] = None \<and>
   contributes (\<lambda>s. NaN) (log_line ''2024-02-29T23:00:00.000Z'') = Some 1709247600000 \<and>
   getAllTimestampsFromFile (\<lambda>s. NaN) (Some example_log) = [1709245800000, 1709247600000] \<and>
   getAllTimestampsFromFile (\<lambda>s. NaN) None = []"
proof -
  from line_contributes_iff [of "\<lambda>s. NaN" "[]" example_log] example_log_lines
  have "getAllTimestampsFromFile (\<lambda>s. NaN) (Some example_log) =
          List.map_filter (contributes (\<lambda>s. NaN))
            [log_line ''2024-02-29T22:30:00.000Z'', str ''{}'', [],
             log_line ''2024-02-29T23:00:00.000Z'']"
    and "getAllTimestampsFromFile (\<lambda>s. NaN) None = []"
    by blast+
  with example_log_lines contributes_examples contributes_empty [of "\<lambda>s. NaN"]
    contributes_braces [of "\<lambda>s. NaN"]
  show ?thesis
    by (simp add: List.map_filter_simps)
qed

lemma foldl_step_fail: "fst (foldl step (MFail, st) s) = MFail"
  by (induction s arbitrary: st) simp_all

lemma finish_fail: "fst p = MFail \<Longrightarrow> finish p = None"
  by (cases p) simp

lemma parse_bom: "JSON_parse (65279 # s) = Throws"
  using finish_fail [OF foldl_step_fail [of "[]" s]]
  by (simp add: JSON_parse_def json_ws_def value_start_def is_digit_def)

text \<open>
  C6 as stated fails for a line at the start or the end of a file: the white space
  that is stripped from the content is more than the white space of JSON.  The file
  here is one line, which begins with a byte order mark; the line does not parse as
  JSON, and the file yields its timestamp.
\<close>

theorem line_contributes_iff_counterexample:
  "10 \<notin> set bom_log \<and>
   JSON_parse bom_log = Throws \<and>
   contributes (\<lambda>s. NaN) bom_log = None \<and>
   getAllTimestampsFromFile (\<lambda>s. NaN) (Some bom_log) = [1709245800000]"
proof -
  have a: "10 \<notin> set bom_log"
    by (simp add: bom_log_def log_line_no_lf)
  have b: "JSON_parse bom_log = Throws"
    by (simp add: bom_log_def parse_bom)
  have c: "contributes (\<lambda>s. NaN) bom_log = None"
    by (simp add: contributes_def b)
  have "trimmed_lines [65279] [log_line ''2024-02-29T22:30:00.000Z''] [] bom_log"
    by (simp add: trimmed_lines_def bom_log_def log_line_no_lf log_line_ends white_def
        white_space_code_points_def line_terminator_code_points_def)
  from trimmed_lines_timestamps [OF this, of "\<lambda>s. NaN"]
  have d: "getAllTimestampsFromFile (\<lambda>s. NaN) (Some bom_log) = [1709245800000]"
    by (simp add: List.map_filter_simps contributes_examples)
  from a b c d show ?thesis by (intro conjI)
qed

section \<open>Failures\<close>

lemma fst_readBlockCache: "fst (readBlockCache w) = Returns (try_catch (readBlockCache_body w) None)"
  by (simp add: readBlockCache_def)

lemma getBlockMetrics_Returns: "\<exists>r. fst (getBlockMetrics w) = Returns r"
  by (simp add: getBlockMetrics_def split_beta split: option.splits)

lemma writeBlockCache_Returns: "fst (writeBlockCache t w) = Returns ()"
  by (simp add: writeBlockCache_def Let_def split: res.splits)








section \<open>Writes of the cache file\<close>
















lemma fst_findMostRecent_emit:
  "fst (findMostRecentBlockStartTime rootDir d (emit evs w)) =
   fst (findMostRecentBlockStartTime rootDir d w)"
  by (simp add: findMostRecentBlockStartTime_def emit_def Let_def split_beta
      split: option.splits res.splits)

lemma fst_getBlockMetrics_emit: "fst (getBlockMetrics (emit evs w)) = fst (getBlockMetrics w)"
  using fst_findMostRecent_emit [of _ 5 evs w]
  by (simp add: getBlockMetrics_def split_beta emit_def split: option.splits)

lemma getBlockMetrics_w_log:
  "fst (getBlockMetrics w_log) =
     Returns (Some \<lparr>startTime = Date (Num 1709244000000),
                      lastActivity = Date (Num 1709245800000)\<rparr>)"
proof -
  have "claudeDir w_log = Some ''/home/u/.claude''"
    by (simp add: w_log_def)
  then show ?thesis
    using locate_w_log by (simp add: getBlockMetrics_def split_beta try_catch_def)
qed

lemma cache_invalid_w_log: "\<not> cache_valid d w_log"
  by (simp add: cache_valid_def readBlockCache_def readBlockCache_body_def w_log_def bind_def
      try_catch_def)















lemma getCachedBlockMetrics_miss_result:
  assumes "\<not> cache_valid d w"
  shows "fst (getCachedBlockMetrics d w) = fst (getBlockMetrics (emit [ReadCache] w))"
proof -
  obtain ro where r: "readBlockCache w = (Returns ro, emit [ReadCache] w)"
    by (simp add: readBlockCache_def)
  obtain go w2 where g: "getBlockMetrics (emit [ReadCache] w) = (Returns go, w2)"
    using getBlockMetrics_Returns [of "emit [ReadCache] w"]
    by (cases "getBlockMetrics (emit [ReadCache] w)") auto
  have wr: "\<And>t. fst (writeBlockCache t w2) = Returns ()"
    by (rule writeBlockCache_Returns)
  show ?thesis
    using wr assms
    by (cases ro; cases go)
       (auto simp: getCachedBlockMetrics_def r g cache_valid_def Let_def split_beta
          split: res.splits)
qed

text \<open>
  C1 fails on the code: \<^verbatim>\<open>getCachedBlockMetrics(d)\<close> checks the cached window with
  \<open>d\<close>, but calls \<^verbatim>\<open>getBlockMetrics()\<close> without it, and the locator then runs with its
  default of 5 hours.  With \<open>d = 1\<close>, no cache, and one entry made an hour and a half
  before now, the call returns the window of the 5-hour locator, where the locator
  run with 1 hour finds the activity stale and returns no window.
\<close>

theorem duration_not_forwarded:
  "\<not> cache_valid 1 w_log \<and>
   fst (getCachedBlockMetrics 1 w_log) =
     Returns (Some \<lparr>startTime = Date (Num 1709244000000),
                      lastActivity = Date (Num 1709245800000)\<rparr>) \<and>
   fst (findMostRecentBlockStartTime ''/home/u/.claude'' 1 (emit [ReadCache] w_log)) =
     Returns None"
proof -
  have a: "fst (getCachedBlockMetrics 1 w_log) =
     Returns (Some \<lparr>startTime = Date (Num 1709244000000),
                      lastActivity = Date (Num 1709245800000)\<rparr>)"
    using getCachedBlockMetrics_miss_result [OF cache_invalid_w_log, of 1]
    by (simp add: fst_getBlockMetrics_emit getBlockMetrics_w_log)
  have "fst (findMostRecentBlockStartTime ''/home/u/.claude'' 1 w_log) = Returns None"
    by (simp add: findMostRecentBlockStartTime_def w_log_def stat_all_def Let_def
        horizon_pass_def cutoffTime_def new_Date_def maxTime_def log_file_timestamps
        lookbackChunks_def initial_scan_def sessionDurationMs_def emit_def)
  then have b: "fst (findMostRecentBlockStartTime ''/home/u/.claude'' 1 (emit [ReadCache] w_log)) =
     Returns None"
    by (simp add: fst_findMostRecent_emit)
  from cache_invalid_w_log [of 1] a b show ?thesis by (intro conjI)
qed

section \<open>The round trip through the cache file\<close>

lemma div_bounds:
  assumes "(0::int) < k"
  shows "k * (x div k) \<le> x" and "x < k * (x div k) + k"
  using mult_div_mod_eq [of k x] pos_mod_sign [OF assms, of x] pos_mod_bound [OF assms, of x]
  by linarith+

lemma DayFromYear_estimate:
  "400 * DayFromYear y \<le> 146097 * y - 287810501"
  "146097 * y - 287811596 \<le> 400 * DayFromYear y"
proof -
  define a where "a = (y - 1969) div 4"
  define b where "b = (y - 1901) div 100"
  define c where "c = (y - 1601) div 400"
  have a: "4 * a \<le> y - 1969" "y - 1969 < 4 * a + 4"
    unfolding a_def by (rule div_bounds; simp)+
  have b: "100 * b \<le> y - 1901" "y - 1901 < 100 * b + 100"
    unfolding b_def by (rule div_bounds; simp)+
  have c: "400 * c \<le> y - 1601" "y - 1601 < 400 * c + 400"
    unfolding c_def by (rule div_bounds; simp)+
  have d: "400 * DayFromYear y = 146000 * y - 287620000 + 400 * a - 400 * b + 400 * c"
    by (simp add: DayFromYear_def a_def b_def c_def)
  show "400 * DayFromYear y \<le> 146097 * y - 287810501"
    unfolding d using a b c by linarith
  show "146097 * y - 287811596 \<le> 400 * DayFromYear y"
    unfolding d using a b c by linarith
qed


lemma YearFromDay_bounds:
  "DayFromYear (YearFromDay d) \<le> d \<and> d < DayFromYear (YearFromDay d + 1)"
proof -
  define q where "q = (400 * d) div 146097"
  have q: "146097 * q \<le> 400 * d" "400 * d < 146097 * q + 146097"
    unfolding q_def by (rule div_bounds; simp)+
  define y0 where "y0 = 1970 + q"
  define lo where "lo = DayFromYear (y0 - 1)"
  define hi where "hi = DayFromYear (y0 + 1 + 1)"
  have "400 * lo \<le> 146097 * (y0 - 1) - 287810501"
    unfolding lo_def by (rule DayFromYear_estimate)
  then have "400 * lo \<le> 146097 * q + 287811090 - 146097 - 287810501"
    by (simp add: y0_def)
  then have "400 * lo \<le> 400 * d"
    using q by linarith
  then have lo: "lo \<le> d"
    by simp
  have "146097 * (y0 + 1 + 1) - 287811596 \<le> 400 * hi"
    unfolding hi_def by (rule DayFromYear_estimate)
  then have "146097 * q + 287811090 + 146097 + 146097 - 287811596 \<le> 400 * hi"
    by (simp add: y0_def)
  then have "400 * d < 400 * hi"
    using q by linarith
  then have hi: "d < hi"
    by simp
  show ?thesis
    using lo hi unfolding YearFromDay_def Let_def q_def [symmetric] y0_def [symmetric] lo_def hi_def
    by (simp add: not_le)
qed


lemma div_succ:
  assumes "(0::int) < k"
  shows "(a + 1) div k = a div k + (if (a + 1) mod k = 0 then 1 else 0)"
proof -
  define q where "q = a div k"
  define r where "r = a mod k"
  have a: "a = k * q + r" and r: "0 \<le> r" "r < k"
    using assms by (simp_all add: q_def r_def)
  show ?thesis
  proof (cases "r + 1 = k")
    case True
    then have e: "a + 1 = k * (q + 1)"
      using a by (simp add: algebra_simps)
    have "(a + 1) div k = q + 1" "(a + 1) mod k = 0"
      unfolding e using assms by simp_all
    then show ?thesis
      by (simp add: q_def)
  next
    case False
    then have lt: "r + 1 < k" using r by simp
    have e: "a + 1 = (r + 1) + k * q"
      using a by simp
    have "(a + 1) div k = q" "(a + 1) mod k = r + 1"
      unfolding e using lt r by (simp_all add: div_pos_pos_trivial mod_pos_pos_trivial)
    then show ?thesis
      using r by (simp add: q_def)
  qed
qed


lemma mod_shift: "(k::int) dvd c \<Longrightarrow> (y - c) mod k = 0 \<longleftrightarrow> y mod k = 0"
  by (simp add: mod_eq_0_iff_dvd dvd_diff_left_iff)

lemma DayFromYear_next: "DayFromYear (y + 1) = DayFromYear y + DaysInYear y"
proof -
  define a where "a = (y - 1969) div 4"
  define b where "b = (y - 1901) div 100"
  define c where "c = (y - 1601) div 400"
  define p4 where "p4 \<longleftrightarrow> y mod 4 = 0"
  define p100 where "p100 \<longleftrightarrow> y mod 100 = 0"
  define p400 where "p400 \<longleftrightarrow> y mod 400 = 0"
  have 4: "(y - 1968) div 4 = a + (if p4 then 1 else 0)"
    using div_succ [of 4 "y - 1969"] mod_shift [of 4 1968 y] by (simp add: a_def p4_def)
  have 100: "(y - 1900) div 100 = b + (if p100 then 1 else 0)"
    using div_succ [of 100 "y - 1901"] mod_shift [of 100 1900 y] by (simp add: b_def p100_def)
  have 400: "(y - 1600) div 400 = c + (if p400 then 1 else 0)"
    using div_succ [of 400 "y - 1601"] mod_shift [of 400 1600 y] by (simp add: c_def p400_def)
  have d: "(100::int) dvd 400" "(4::int) dvd 100"
    by simp_all
  have m: "p400 \<Longrightarrow> p100" "p100 \<Longrightarrow> p4"
    using dvd_trans [OF d(1), of y] dvd_trans [OF d(2), of y]
    by (simp_all add: mod_eq_0_iff_dvd p4_def p100_def p400_def)
  have lhs: "DayFromYear (y + 1) =
          365 * (y - 1969) + (a + (if p4 then 1 else 0)) - (b + (if p100 then 1 else 0)) +
          (c + (if p400 then 1 else 0))"
    unfolding 4 [symmetric] 100 [symmetric] 400 [symmetric] by (simp add: DayFromYear_def)
  have rhs: "DayFromYear y = 365 * (y - 1970) + a - b + c"
    by (simp add: DayFromYear_def a_def b_def c_def)
  have dy: "DaysInYear y = (if p4 \<and> (\<not> p100 \<or> p400) then 366 else 365)"
    by (simp add: DaysInYear_def InLeapYear_def p4_def p100_def p400_def)
  show ?thesis
    unfolding lhs rhs dy using m by (cases p4; cases p100; cases p400; simp)
qed

lemma DayWithinYear_range:
  "0 \<le> DayWithinYear t \<and> DayWithinYear t < DaysInYear (YearFromTime t)"
  using YearFromDay_bounds [of "Day t"] DayFromYear_next [of "YearFromTime t"]
  by (simp add: DayWithinYear_def YearFromTime_def)

lemma month_of_day_range:
  assumes "0 \<le> dy" and "dy < (if leap then 366 else 365)"
  shows "0 \<le> month_of_day leap dy \<and> month_of_day leap dy \<le> 11 \<and>
         month_start leap (month_of_day leap dy) \<le> dy \<and>
         dy < month_start leap (month_of_day leap dy + 1)"
  using assms by (cases leap) (simp_all add: month_of_day_def month_start_def)


lemma time_fields:
  "MakeDate (Day t) (MakeTime (HourFromTime t) (MinFromTime t) (SecFromTime t) (msFromTime t)) = t"
proof -
  define a where "a = t div 1000"
  define b where "b = a div 60"
  define c where "c = b div 60"
  define e where "e = c div 24"
  define r0 where "r0 = t mod 1000"
  define r1 where "r1 = a mod 60"
  define r2 where "r2 = b mod 60"
  define r3 where "r3 = c mod 24"
  have m: "t div 60000 = b"
  proof -
    have "t div (1000 * 60) = t div 1000 div 60"
      by (rule zdiv_zmult2_eq) simp
    then show ?thesis by (simp add: a_def b_def)
  qed
  have h: "t div 3600000 = c"
  proof -
    have "t div (60000 * 60) = t div 60000 div 60"
      by (rule zdiv_zmult2_eq) simp
    then show ?thesis by (simp add: m c_def)
  qed
  have d: "t div 86400000 = e"
  proof -
    have "t div (3600000 * 24) = t div 3600000 div 24"
      by (rule zdiv_zmult2_eq) simp
    then show ?thesis by (simp add: h e_def)
  qed
  have t: "t = 1000 * a + r0" and a: "a = 60 * b + r1"
    and b: "b = 60 * c + r2" and c: "c = 24 * e + r3"
    by (simp_all add: a_def b_def c_def e_def r0_def r1_def r2_def r3_def)
  have "e * 86400000 + (r3 * 3600000 + r2 * 60000 + r1 * 1000 + r0) = t"
    using t a b c by linarith
  then show ?thesis
    unfolding MakeDate_def MakeTime_def Day_def HourFromTime_def MinFromTime_def
      SecFromTime_def msFromTime_def msPerDay_def msPerHour_def msPerMinute_def
      msPerSecond_def m h d a_def [symmetric] r0_def [symmetric] r1_def [symmetric]
      r2_def [symmetric] r3_def [symmetric]
    by simp
qed

lemma time_field_ranges:
  "0 \<le> HourFromTime t \<and> HourFromTime t \<le> 23 \<and> 0 \<le> MinFromTime t \<and> MinFromTime t \<le> 59 \<and>
   0 \<le> SecFromTime t \<and> SecFromTime t \<le> 59 \<and> 0 \<le> msFromTime t \<and> msFromTime t \<le> 999"
proof -
  define hh where "hh = HourFromTime t"
  define mi where "mi = MinFromTime t"
  define ss where "ss = SecFromTime t"
  define ms where "ms = msFromTime t"
  have "0 \<le> hh" "hh < 24" "0 \<le> mi" "mi < 60" "0 \<le> ss" "ss < 60" "0 \<le> ms" "ms < 1000"
    by (simp_all add: hh_def mi_def ss_def ms_def HourFromTime_def MinFromTime_def
        SecFromTime_def msFromTime_def msPerSecond_def)
  then show ?thesis
    unfolding hh_def [symmetric] mi_def [symmetric] ss_def [symmetric] ms_def [symmetric]
    by linarith
qed

lemma date_fields:
  "MakeDay (YearFromTime t) (MonthFromTime t) (DateFromTime t) = Day t"
  by (simp add: MakeDay_def DateFromTime_def DayWithinYear_def)

lemma date_field_ranges:
  "0 \<le> MonthFromTime t \<and> MonthFromTime t \<le> 11 \<and> 1 \<le> DateFromTime t \<and>
   DateFromTime t \<le> DaysInMonth (YearFromTime t) (MonthFromTime t) \<and> DateFromTime t \<le> 31"
proof -
  define leap where "leap = InLeapYear (YearFromTime t)"
  define dy where "dy = DayWithinYear t"
  define mo where "mo = month_of_day leap dy"
  have r: "0 \<le> dy" "dy < (if leap then 366 else 365)"
    using DayWithinYear_range [of t] by (simp_all add: dy_def leap_def DaysInYear_def)
  from month_of_day_range [OF r] have
    mo: "0 \<le> mo" "mo \<le> 11" "month_start leap mo \<le> dy" "dy < month_start leap (mo + 1)"
    by (simp_all add: mo_def)
  have len: "month_start leap (mo + 1) - month_start leap mo \<le> 31"
    using mo(1,2) by (cases leap) (auto simp: month_start_def)
  show ?thesis
    unfolding MonthFromTime_def DateFromTime_def DaysInMonth_def leap_def [symmetric]
      dy_def [symmetric] mo_def [symmetric]
    using mo len by linarith
qed


lemma Day_range:
  assumes "\<bar>t\<bar> \<le> maxTime"
  shows "- 100000000 \<le> Day t \<and> Day t \<le> 100000000"
proof -
  have "(- 8640000000000000) div 86400000 \<le> t div (86400000::int)"
    using assms by (intro zdiv_mono1) (auto simp: maxTime_def)
  moreover have "t div (86400000::int) \<le> 8640000000000000 div 86400000"
    using assms by (intro zdiv_mono1) (auto simp: maxTime_def)
  ultimately show ?thesis
    by (simp add: Day_def msPerDay_def)
qed

lemma YearFromTime_range:
  assumes "\<bar>t\<bar> \<le> maxTime"
  shows "- 999999 \<le> YearFromTime t \<and> YearFromTime t \<le> 999999"
proof -
  define y where "y = YearFromTime t"
  define lo where "lo = DayFromYear y"
  define hi where "hi = DayFromYear (y + 1)"
  have b: "lo \<le> Day t" "Day t < hi"
    using YearFromDay_bounds [of "Day t"] by (simp_all add: lo_def hi_def y_def YearFromTime_def)
  have e1: "146097 * y - 287811596 \<le> 400 * lo"
    unfolding lo_def by (rule DayFromYear_estimate)
  have "400 * hi \<le> 146097 * (y + 1) - 287810501"
    unfolding hi_def by (rule DayFromYear_estimate)
  then have e2: "400 * hi \<le> 146097 * y + 146097 - 287810501"
    by simp
  show ?thesis
    unfolding y_def [symmetric] using Day_range [OF assms] b e1 e2 by linarith
qed

lemma digit_ok:
  assumes "0 \<le> n" and "n \<le> 9"
  shows "is_digit (digit n)" and "int (digit n) - 48 = n"
  using assms by (simp_all add: is_digit_def digit_def)

lemma small_div:
  assumes "(0::int) \<le> n" and "n < 10 * k" and "0 < k"
  shows "0 \<le> n div k \<and> n div k \<le> 9"
proof -
  have "k * (n div k) < k * 10"
    using div_bounds(1) [OF assms(3), of n] assms(2) by linarith
  then have "n div k < 10"
    using assms(3) by (simp add: mult_less_cancel_left_pos)
  moreover have "0 \<le> n div k"
    using assms by (simp add: pos_imp_zdiv_nonneg_iff)
  ultimately show ?thesis by simp
qed

lemma mod10: "0 \<le> (n::int) mod 10 \<and> n mod 10 \<le> 9"
  using pos_mod_bound [of 10 n] pos_mod_sign [of 10 n] by linarith

lemma digits_val_single:
  assumes "0 \<le> d" and "d \<le> 9"
  shows "digits_val [digit d] = Some d"
  using digit_ok [OF assms] by (simp add: digits_val_def)

lemma digits_val_step:
  assumes "digits_val ds = Some (m div 10)"
  shows "digits_val (ds @ [digit (m mod 10)]) = Some m"
proof -
  from assms have all: "list_all is_digit ds"
    and v: "foldl (\<lambda>n c. 10 * n + (int c - 48)) 0 ds = m div 10"
    by (auto simp: digits_val_def split: if_splits)
  have d: "is_digit (digit (m mod 10))" "int (digit (m mod 10)) - 48 = m mod 10"
    using digit_ok [of "m mod 10"] mod10 [of m] by simp_all
  show ?thesis
    using all v d by (simp add: digits_val_def)
qed

lemma div10: "(n::int) div (10 * k) = n div k div 10"
proof -
  have "n div (k * 10) = n div k div 10"
    by (rule zdiv_zmult2_eq) simp
  then show ?thesis by (simp add: mult.commute)
qed

lemma digits_val2:
  assumes "0 \<le> n" and "n \<le> 99"
  shows "digits_val [digit (n div 10), digit (n mod 10)] = Some n"
proof -
  have "0 \<le> n div 10 \<and> n div 10 \<le> 9"
    using assms by (intro small_div) simp_all
  then have "digits_val [digit (n div 10)] = Some (n div 10)"
    by (intro digits_val_single) simp_all
  from digits_val_step [OF this] show ?thesis by simp
qed

lemma digits_val3:
  assumes "0 \<le> n" and "n \<le> 999"
  shows "digits_val [digit (n div 100), digit (n div 10 mod 10), digit (n mod 10)] = Some n"
proof -
  have "0 \<le> n div 100 \<and> n div 100 \<le> 9"
    using assms by (intro small_div) simp_all
  then have "digits_val [digit (n div 100)] = Some (n div 100)"
    by (intro digits_val_single) simp_all
  then have "digits_val [digit (n div 100)] = Some (n div 10 div 10)"
    using div10 [of n 10] by simp
  from digits_val_step [OF this] have "digits_val [digit (n div 100), digit (n div 10 mod 10)] = Some (n div 10)"
    by simp
  from digits_val_step [OF this] show ?thesis by simp
qed

lemma digits_val4:
  assumes "0 \<le> n" and "n \<le> 9999"
  shows "digits_val [digit (n div 1000), digit (n div 100 mod 10), digit (n div 10 mod 10),
                     digit (n mod 10)] = Some n"
proof -
  have "0 \<le> n div 1000 \<and> n div 1000 \<le> 9"
    using assms by (intro small_div) simp_all
  then have "digits_val [digit (n div 1000)] = Some (n div 1000)"
    by (intro digits_val_single) simp_all
  then have "digits_val [digit (n div 1000)] = Some (n div 100 div 10)"
    using div10 [of n 100] by simp
  from digits_val_step [OF this]
  have "digits_val [digit (n div 1000), digit (n div 100 mod 10)] = Some (n div 10 div 10)"
    using div10 [of n 10] by simp
  from digits_val_step [OF this]
  have "digits_val [digit (n div 1000), digit (n div 100 mod 10), digit (n div 10 mod 10)] =
          Some (n div 10)"
    by simp
  from digits_val_step [OF this] show ?thesis by simp
qed

lemma digits_val6:
  assumes "0 \<le> n" and "n \<le> 999999"
  shows "digits_val [digit (n div 100000), digit (n div 10000 mod 10), digit (n div 1000 mod 10),
                     digit (n div 100 mod 10), digit (n div 10 mod 10), digit (n mod 10)] = Some n"
proof -
  have "0 \<le> n div 100000 \<and> n div 100000 \<le> 9"
    using assms by (intro small_div) simp_all
  then have "digits_val [digit (n div 100000)] = Some (n div 100000)"
    by (intro digits_val_single) simp_all
  then have "digits_val [digit (n div 100000)] = Some (n div 10000 div 10)"
    using div10 [of n 10000] by simp
  from digits_val_step [OF this]
  have "digits_val [digit (n div 100000), digit (n div 10000 mod 10)] = Some (n div 1000 div 10)"
    using div10 [of n 1000] by simp
  from digits_val_step [OF this]
  have "digits_val [digit (n div 100000), digit (n div 10000 mod 10), digit (n div 1000 mod 10)] =
          Some (n div 100 div 10)"
    using div10 [of n 100] by simp
  from digits_val_step [OF this]
  have "digits_val [digit (n div 100000), digit (n div 10000 mod 10), digit (n div 1000 mod 10),
                    digit (n div 100 mod 10)] = Some (n div 10 div 10)"
    using div10 [of n 10] by simp
  from digits_val_step [OF this]
  have "digits_val [digit (n div 100000), digit (n div 10000 mod 10), digit (n div 1000 mod 10),
                    digit (n div 100 mod 10), digit (n div 10 mod 10)] = Some (n div 10)"
    by simp
  from digits_val_step [OF this] show ?thesis by simp
qed


lemma iso_fields_canonical:
  assumes "1 \<le> mo" "mo \<le> 12" "1 \<le> dd" "dd \<le> DaysInMonth y (mo - 1)" "dd \<le> 31"
    and "0 \<le> hh" "hh \<le> 23" "0 \<le> mi" "mi \<le> 59" "0 \<le> ss" "ss \<le> 59" "0 \<le> ms" "ms \<le> 999"
  shows "iso_fields y (time_string mo dd hh mi ss ms) =
           Some (MakeDate (MakeDay y (mo - 1) dd) (MakeTime hh mi ss ms))"
proof -
  have d: "digits_val [digit (mo div 10), digit (mo mod 10)] = Some mo"
    "digits_val [digit (dd div 10), digit (dd mod 10)] = Some dd"
    "digits_val [digit (hh div 10), digit (hh mod 10)] = Some hh"
    "digits_val [digit (mi div 10), digit (mi mod 10)] = Some mi"
    "digits_val [digit (ss div 10), digit (ss mod 10)] = Some ss"
    "digits_val [digit (ms div 100), digit (ms div 10 mod 10), digit (ms mod 10)] = Some ms"
    using assms by (simp_all add: digits_val2 digits_val3)
  show ?thesis
    using assms by (simp add: iso_fields_def time_string_def pad2_def pad3_def d)
qed

lemma digit_not_sign: "0 \<le> n \<Longrightarrow> digit n \<noteq> 43 \<and> digit n \<noteq> 45"
  by (simp add: digit_def)

lemma iso_utc_parse_canonical:
  assumes "- 999999 \<le> y" "y \<le> 999999"
  shows "iso_utc_parse (year_string y @ r) = iso_fields y r"
proof -
  consider (four) "0 \<le> y" "y \<le> 9999" | (neg) "y < 0" | (big) "9999 < y"
    by linarith
  then show ?thesis
  proof cases
    case four
    have d: "digits_val [digit (y div 1000), digit (y div 100 mod 10), digit (y div 10 mod 10),
                         digit (y mod 10)] = Some y"
      using four by (rule digits_val4)
    have "0 \<le> y div 1000"
      using four by (simp add: pos_imp_zdiv_nonneg_iff)
    from digit_not_sign [OF this] show ?thesis
      using four by (simp add: iso_utc_parse_def year_string_def pad4_def d)
  next
    case neg
    have d: "digits_val [digit (- y div 100000), digit (- y div 10000 mod 10),
                         digit (- y div 1000 mod 10), digit (- y div 100 mod 10),
                         digit (- y div 10 mod 10), digit (- y mod 10)] = Some (- y)"
      using neg assms by (intro digits_val6) simp_all
    show ?thesis
      using neg by (simp add: iso_utc_parse_def year_string_def pad6_def d)
  next
    case big
    have d: "digits_val [digit (y div 100000), digit (y div 10000 mod 10),
                         digit (y div 1000 mod 10), digit (y div 100 mod 10),
                         digit (y div 10 mod 10), digit (y mod 10)] = Some y"
      using big assms by (intro digits_val6) simp_all
    show ?thesis
      using big by (simp add: iso_utc_parse_def year_string_def pad6_def d)
  qed
qed

lemma toISOString_Num:
  "toISOString (Date (Num t)) =
     Returns (year_string (YearFromTime t) @
              time_string (MonthFromTime t + 1) (DateFromTime t) (HourFromTime t)
                (MinFromTime t) (SecFromTime t) (msFromTime t))"
  by (simp add: toISOString_def time_string_def)

lemma iso_round_trip:
  assumes "\<bar>t\<bar> \<le> maxTime"
  shows "iso_utc_parse (year_string (YearFromTime t) @
              time_string (MonthFromTime t + 1) (DateFromTime t) (HourFromTime t)
                (MinFromTime t) (SecFromTime t) (msFromTime t)) = Some t"
proof -
  have y: "- 999999 \<le> YearFromTime t" "YearFromTime t \<le> 999999"
    using YearFromTime_range [OF assms] by simp_all
  have "iso_fields (YearFromTime t)
          (time_string (MonthFromTime t + 1) (DateFromTime t) (HourFromTime t)
             (MinFromTime t) (SecFromTime t) (msFromTime t)) =
        Some (MakeDate (MakeDay (YearFromTime t) (MonthFromTime t + 1 - 1) (DateFromTime t))
               (MakeTime (HourFromTime t) (MinFromTime t) (SecFromTime t) (msFromTime t)))"
    using date_field_ranges [of t] time_field_ranges [of t]
    by (intro iso_fields_canonical) simp_all
  then show ?thesis
    by (simp add: iso_utc_parse_canonical [OF y] date_fields time_fields)
qed


lemma quote_units_plain: "list_all plain_unit s \<Longrightarrow> quote_units s = s"
  by (induction s rule: quote_units.induct)
     (auto simp: plain_unit_def leading_surrogate_def trailing_surrogate_def quote_unit_def)

lemma string_body:
  "list_all plain_unit s \<Longrightarrow> foldl step (MStr ctx acc, st) s = (MStr ctx (acc @ s), st)"
  by (induction s arbitrary: acc) (auto simp: plain_unit_def)

lemma parse_cache_text:
  assumes "list_all plain_unit s"
  shows "JSON_parse (JSON_stringify_BlockCache s) =
           Returns (JObj [(str ''startTime'', JStr s)])"
proof -
  have pre: "foldl step (foldl step (foldl step (MValue, []) [123, 34]) (str ''startTime''))
               [34, 58, 34] =
               (MStr AsValue [], [KeyF (str ''startTime''), ObjF []])"
    by (simp add: str_def json_defs)
  have post: "foldl step (MStr AsValue s, [KeyF (str ''startTime''), ObjF []]) [34, 125] =
                (MAfter, [DoneF (JObj [(str ''startTime'', JStr s)])])"
    by (simp add: json_defs)
  have "foldl step (MValue, []) (JSON_stringify_BlockCache s) =
          (MAfter, [DoneF (JObj [(str ''startTime'', JStr s)])])"
    unfolding JSON_stringify_BlockCache_def quote_units_plain [OF assms]
    by (simp only: foldl_append pre string_body [OF assms] post append_Nil)
  then show ?thesis
    by (simp add: JSON_parse_def)
qed

lemma plain_digit:
  assumes "0 \<le> n" and "n \<le> 9"
  shows "plain_unit (digit n)"
proof -
  have "nat n \<le> 9"
    using assms by simp
  then show ?thesis
    by (simp add: plain_unit_def digit_def)
qed

lemma plain_mod10: "plain_unit (digit (n mod 10))"
  using mod10 [of n] by (intro plain_digit) simp_all

lemma plain_lead: "0 \<le> n \<Longrightarrow> n < 10 * k \<Longrightarrow> 0 < k \<Longrightarrow> plain_unit (digit (n div k))"
  using small_div [of n k] by (intro plain_digit) simp_all

lemma plain_pad2: "0 \<le> n \<Longrightarrow> n \<le> 99 \<Longrightarrow> list_all plain_unit (pad2 n)"
  by (simp add: pad2_def plain_mod10 plain_lead)

lemma plain_pad3: "0 \<le> n \<Longrightarrow> n \<le> 999 \<Longrightarrow> list_all plain_unit (pad3 n)"
  by (simp add: pad3_def plain_mod10 plain_lead)

lemma plain_pad4: "0 \<le> n \<Longrightarrow> n \<le> 9999 \<Longrightarrow> list_all plain_unit (pad4 n)"
  by (simp add: pad4_def plain_mod10 plain_lead)

lemma plain_pad6: "0 \<le> n \<Longrightarrow> n \<le> 999999 \<Longrightarrow> list_all plain_unit (pad6 n)"
  by (simp add: pad6_def plain_mod10 plain_lead)

lemma plain_year_string:
  "- 999999 \<le> y \<Longrightarrow> y \<le> 999999 \<Longrightarrow> list_all plain_unit (year_string y)"
  by (simp add: year_string_def plain_pad4 plain_pad6) (simp add: plain_unit_def)

lemma plain_time_string:
  assumes "0 \<le> mo" "mo \<le> 99" "0 \<le> dd" "dd \<le> 99" "0 \<le> hh" "hh \<le> 99" "0 \<le> mi" "mi \<le> 99"
    "0 \<le> ss" "ss \<le> 99" "0 \<le> ms" "ms \<le> 999"
  shows "list_all plain_unit (time_string mo dd hh mi ss ms)"
  using assms by (simp add: time_string_def plain_pad2 plain_pad3) (simp add: plain_unit_def)

lemma plain_iso:
  assumes "\<bar>t\<bar> \<le> maxTime"
  shows "list_all plain_unit (year_string (YearFromTime t) @
              time_string (MonthFromTime t + 1) (DateFromTime t) (HourFromTime t)
                (MinFromTime t) (SecFromTime t) (msFromTime t))"
proof -
  have "list_all plain_unit (year_string (YearFromTime t))"
    using YearFromTime_range [OF assms] by (intro plain_year_string) simp_all
  moreover have "list_all plain_unit
      (time_string (MonthFromTime t + 1) (DateFromTime t) (HourFromTime t)
         (MinFromTime t) (SecFromTime t) (msFromTime t))"
    using date_field_ranges [of t] time_field_ranges [of t]
    by (intro plain_time_string) simp_all
  ultimately show ?thesis by simp
qed

text \<open>
  C10.  For every valid Date \<open>t\<close>, when creating the cache directory and writing the
  cache file succeed, reading the cache after \<^verbatim>\<open>writeBlockCache(t)\<close> returns a Date with
  the time value of \<open>t\<close>: \<^verbatim>\<open>toISOString\<close>, \<^verbatim>\<open>JSON.stringify\<close>, \<^verbatim>\<open>JSON.parse\<close> and
  \<^verbatim>\<open>new Date(string)\<close> lose nothing, whatever the engine does with other date strings.
\<close>

theorem cache_round_trip:
  assumes valid: "\<bar>t\<bar> \<le> maxTime" and mk: "mkdir_ok w" and wr: "writeFile_ok w"
  shows "fst (readBlockCache (snd (writeBlockCache (Date (Num t)) w))) =
           Returns (Some (Date (Num t)))"
proof -
  define iso where "iso = year_string (YearFromTime t) @
              time_string (MonthFromTime t + 1) (DateFromTime t) (HourFromTime t)
                (MinFromTime t) (SecFromTime t) (msFromTime t)"
  have to: "toISOString (Date (Num t)) = Returns iso"
    by (simp add: toISOString_Num iso_def)
  have plain: "list_all plain_unit iso"
    unfolding iso_def by (rule plain_iso [OF valid])
  have parse: "iso_utc_parse iso = Some t"
    unfolding iso_def by (rule iso_round_trip [OF valid])
  define w' where "w' = snd (writeBlockCache (Date (Num t)) w)"
  have cf: "cache_file w' = Some (JSON_stringify_BlockCache iso)"
    and other: "parse_other w' = parse_other w"
    using mk wr by (simp_all add: w'_def writeBlockCache_def to Let_def emit_def)
  have date: "new_Date_string (parse_other w') iso = Date (Num t)"
    using valid by (simp add: new_Date_string_def Date_parse_def parse)
  have "readBlockCache_body w' = Returns (Some (Date (Num t)))"
    by (simp add: readBlockCache_body_def cf parse_cache_text [OF plain] bind_def date)
  then show ?thesis
    by (simp add: readBlockCache_def try_catch_def w'_def)
qed

theorem cache_round_trip_witness:
  "\<bar>1709244000000\<bar> \<le> maxTime \<and> mkdir_ok w_log \<and> writeFile_ok w_log \<and>
   fst (readBlockCache (snd (writeBlockCache (Date (Num 1709244000000)) w_log))) =
     Returns (Some (Date (Num 1709244000000)))"
proof -
  have v: "\<bar>1709244000000\<bar> \<le> maxTime"
    by (simp add: maxTime_def)
  have m: "mkdir_ok w_log" and f: "writeFile_ok w_log"
    by (simp_all add: w_log_def)
  from cache_round_trip [OF v m f] v m f show ?thesis by simp
qed

end
